theory Spec2Isabelle
  imports Complex_Main "HOL-Library.Sublist" "HOL-Library.Multiset"
begin

section \<open>JavaScript values\<close>

text \<open>
  Strings are sequences of UTF-8 bytes, as PostgreSQL stores them and as the
  request carries them. Equality of strings is equality of the byte sequences.
  A JavaScript string with an unpaired surrogate has no UTF-8 form and is not
  modelled.
  A JavaScript number is a double: every finite double is a rational, and the
  code only compares numbers with integer constants, so a finite number is
  modelled by its exact rational value.
\<close>

datatype jsnumber = Finite rat | PosInfinity | NegInfinity | NaN

datatype jsval =
    JUndefined
  | JNull
  | JBool bool
  | JNum jsnumber
  | JStr string
  | JArr "jsval list"
  | JObj "(string \<times> jsval) list"

text \<open>ToBoolean: the falsy values are undefined, null, false, 0, NaN and the empty string.\<close>

fun truthy :: "jsval \<Rightarrow> bool" where
  "truthy JUndefined = False"
| "truthy JNull = False"
| "truthy (JBool b) = b"
| "truthy (JNum n) = (n \<noteq> NaN \<and> n \<noteq> Finite 0)"
| "truthy (JStr s) = (s \<noteq> [])"
| "truthy (JArr xs) = True"
| "truthy (JObj kvs) = True"

text \<open>\<open>a || b\<close> on values.\<close>

definition js_or :: "jsval \<Rightarrow> jsval \<Rightarrow> jsval" where
  "js_or a b = (if truthy a then a else b)"

text \<open>\<open>s || d\<close> where \<open>s\<close> is a string, null or undefined (\<open>None\<close>).\<close>

definition str_or :: "string option \<Rightarrow> 'a \<Rightarrow> (string \<Rightarrow> 'a) \<Rightarrow> 'a" where
  "str_or s d k = (case s of None \<Rightarrow> d | Some x \<Rightarrow> if x = [] then d else k x)"

text \<open>\<open>typeof v === 'number'\<close>, \<open>n >= 0\<close>, \<open>n <= 100\<close> and \<open>Array.isArray\<close>.\<close>

fun is_number :: "jsval \<Rightarrow> bool" where
  "is_number (JNum n) = True"
| "is_number v = False"

fun num_ge :: "jsnumber \<Rightarrow> rat \<Rightarrow> bool" where
  "num_ge (Finite r) c = (r \<ge> c)"
| "num_ge PosInfinity c = True"
| "num_ge NegInfinity c = False"
| "num_ge NaN c = False"

fun num_le :: "jsnumber \<Rightarrow> rat \<Rightarrow> bool" where
  "num_le (Finite r) c = (r \<le> c)"
| "num_le PosInfinity c = False"
| "num_le NegInfinity c = True"
| "num_le NaN c = False"

fun isArray :: "jsval \<Rightarrow> bool" where
  "isArray (JArr xs) = True"
| "isArray v = False"

text \<open>
  \<open>Array.prototype.includes\<close> on an array of strings: SameValueZero finds only a
  string equal to an element.
\<close>

fun array_includes :: "string list \<Rightarrow> jsval \<Rightarrow> bool" where
  "array_includes xs (JStr s) = (s \<in> set xs)"
| "array_includes xs v = False"

subsection \<open>White space, trim and parseInt\<close>

text \<open>
  The white-space and line-terminator characters of ECMAScript, each as its
  UTF-8 bytes: TAB, LF, VT, FF, CR, SP, U+00A0, U+1680, U+2000 to U+200A,
  U+2028, U+2029, U+202F, U+205F, U+3000, U+FEFF.
\<close>

definition white_space :: "string list" where
  "white_space =
     [ [CHR 0x09], [CHR 0x0A], [CHR 0x0B], [CHR 0x0C], [CHR 0x0D], [CHR 0x20],
      [CHR 0xC2, CHR 0xA0],
      [CHR 0xE1, CHR 0x9A, CHR 0x80],
      [CHR 0xE2, CHR 0x80, CHR 0x80], [CHR 0xE2, CHR 0x80, CHR 0x81],
      [CHR 0xE2, CHR 0x80, CHR 0x82], [CHR 0xE2, CHR 0x80, CHR 0x83],
      [CHR 0xE2, CHR 0x80, CHR 0x84], [CHR 0xE2, CHR 0x80, CHR 0x85],
      [CHR 0xE2, CHR 0x80, CHR 0x86], [CHR 0xE2, CHR 0x80, CHR 0x87],
      [CHR 0xE2, CHR 0x80, CHR 0x88], [CHR 0xE2, CHR 0x80, CHR 0x89],
      [CHR 0xE2, CHR 0x80, CHR 0x8A],
      [CHR 0xE2, CHR 0x80, CHR 0xA8], [CHR 0xE2, CHR 0x80, CHR 0xA9],
      [CHR 0xE2, CHR 0x80, CHR 0xAF],
      [CHR 0xE2, CHR 0x81, CHR 0x9F],
      [CHR 0xE3, CHR 0x80, CHR 0x80],
      [CHR 0xEF, CHR 0xBB, CHR 0xBF] ]"

text \<open>The number of bytes of the entry of \<open>ws\<close> that \<open>s\<close> starts with, 0 if there is none.\<close>

definition ws_prefix :: "string list \<Rightarrow> string \<Rightarrow> nat" where
  "ws_prefix ws s = (case find (\<lambda>w. w \<noteq> [] \<and> prefix w s) ws of None \<Rightarrow> 0 | Some w \<Rightarrow> length w)"

function strip :: "string list \<Rightarrow> string \<Rightarrow> string" where
  "strip ws s = (if ws_prefix ws s = 0 then s else strip ws (drop (ws_prefix ws s) s))"
  by pat_completeness auto
termination
proof (relation "measure (\<lambda>(ws, s). length s)")
  show "wf (measure (\<lambda>(ws, s). length s))" by simp
next
  fix ws :: "string list" and s :: string
  assume nz: "ws_prefix ws s \<noteq> 0"
  then obtain w where w: "find (\<lambda>w. w \<noteq> [] \<and> prefix w s) ws = Some w"
    by (auto simp: ws_prefix_def split: option.splits)
  then have "w \<noteq> [] \<and> prefix w s"
    by (auto simp: find_Some_iff)
  then have "s \<noteq> []" by auto
  with nz show "((ws, drop (ws_prefix ws s) s), (ws, s)) \<in> measure (\<lambda>(ws, s). length s)"
    by simp
qed

declare strip.simps [simp del]

definition trimStart :: "string \<Rightarrow> string" where
  "trimStart s = strip white_space s"

definition trimEnd :: "string \<Rightarrow> string" where
  "trimEnd s = rev (strip (map rev white_space) (rev s))"

definition trim :: "string \<Rightarrow> string" where
  "trim s = trimEnd (trimStart s)"

definition is_digit :: "char \<Rightarrow> bool" where
  "is_digit c = (c \<in> set ''0123456789'')"

definition digit_val :: "char \<Rightarrow> int" where
  "digit_val c = int (of_char c) - 48"

text \<open>
  \<open>parseInt(str, 10)\<close>: skip leading white space, read an optional sign, then
  the longest run of decimal digits; \<open>None\<close> is NaN (no digit). The value is the
  mathematical integer; JavaScript rounds it to a double beyond \<open>2^53\<close>, which
  keeps its sign and its order with respect to 1, 500 and \<open>2^31\<close>.
\<close>

definition parseInt10 :: "string \<Rightarrow> int option" where
  "parseInt10 str =
     (let s = trimStart str;
          neg = (s \<noteq> [] \<and> hd s = CHR ''-'');
          s1 = (if s \<noteq> [] \<and> (hd s = CHR ''-'' \<or> hd s = CHR ''+'') then tl s else s);
          z = takeWhile is_digit s1
      in if z = [] then None
         else Some ((if neg then - 1 else 1) * foldl (\<lambda>a c. 10 * a + digit_val c) 0 z))"

text \<open>
  ToString of a query parameter that the request gives at most once: a string, or
  \<open>undefined\<close> when it is missing.
\<close>

definition query_string :: "string option \<Rightarrow> string" where
  "query_string q = (case q of None \<Rightarrow> ''undefined'' | Some s \<Rightarrow> s)"

section \<open>The pipeline statuses and the stage map\<close>

definition LEAD_STATUSES :: "string list" where
  "LEAD_STATUSES =
     [''new'', ''contacted'', ''qualified'', ''proposal'', ''negotiating'', ''won'', ''lost'']"

text \<open>
  \<open>stageMap\<close> is an object literal, so \<open>stageMap[k]\<close> finds the object's own
  properties first and then the properties it inherits from \<open>Object.prototype\<close>.
  The result of a lookup is a string of the literal, or the inherited member of that
  name (a built-in function; for \<open>__proto__\<close> the prototype object), or undefined.
\<close>

datatype stage = Str string | Inherited string

definition stageMap_own :: "(string \<times> string) list" where
  "stageMap_own =
     [(''new'', ''cold''), (''contacted'', ''no_reply''), (''qualified'', ''positive_reply''),
      (''proposal'', ''positive_reply''), (''negotiating'', ''positive_reply''),
      (''won'', ''positive_reply''), (''lost'', ''negative_reply'')]"

definition Object_prototype :: "string list" where
  "Object_prototype =
     [''constructor'', ''__defineGetter__'', ''__defineSetter__'', ''hasOwnProperty'',
      ''__lookupGetter__'', ''__lookupSetter__'', ''isPrototypeOf'', ''propertyIsEnumerable'',
      ''toString'', ''valueOf'', ''__proto__'', ''toLocaleString'']"

definition stageMap :: "string \<Rightarrow> stage option" where
  "stageMap k =
     (case map_of stageMap_own k of
        Some v \<Rightarrow> Some (Str v)
      | None \<Rightarrow> if k \<in> set Object_prototype then Some (Inherited k) else None)"

text \<open>
  \<open>stageMap[row.status] || 'cold'\<close>: a function or an object is truthy, a string
  is truthy unless empty.
\<close>

definition outreach_stage :: "string \<Rightarrow> stage" where
  "outreach_stage status =
     (case stageMap status of
        None \<Rightarrow> Str ''cold''
      | Some (Str v) \<Rightarrow> if v = [] then Str ''cold'' else Str v
      | Some (Inherited k) \<Rightarrow> Inherited k)"

section \<open>The automation feed: query parameters\<close>

text \<open>
  \<open>Math.min(500, Math.max(1, parseInt(req.query.limit, 10) || 200))\<close>: NaN and 0
  are falsy.
\<close>

definition route_limit :: "string option \<Rightarrow> int" where
  "route_limit q =
     min 500 (max 1 (case parseInt10 (query_string q) of
                       None \<Rightarrow> 200
                     | Some n \<Rightarrow> if n = 0 then 200 else n))"

text \<open>\<open>(req.query.status || '').trim() || null\<close>\<close>

definition route_status :: "string option \<Rightarrow> string option" where
  "route_status q =
     (let t = trim (str_or q [] (\<lambda>s. s)) in if t = [] then None else Some t)"

section \<open>The database\<close>

text \<open>
  The tables of \<open>initSchema\<close> as lists of rows in insertion order, with the
  sequences behind the SERIAL columns (the last value handed out). A JSONB column
  holds the JSON value, a nullable text column a \<open>string option\<close>, a timestamp
  the reading of the server's clock. A statement that PostgreSQL rejects returns
  \<open>DbError\<close>; the JavaScript caller sees it as a thrown exception.
\<close>

datatype error = DbError

record practice =
  p_id :: int
  p_url :: string
  p_name :: string
  p_website :: "string option"
  p_socials :: jsval
  p_email :: "string option"
  p_address :: "string option"
  p_contact :: "string option"
  p_description :: "string option"
  p_years_active :: "string option"
  p_staff :: "string option"
  p_awards :: jsval
  p_source :: "string option"
  p_created_at :: nat
  p_updated_at :: nat

record lead =
  l_id :: int
  l_practice_id :: int
  l_status :: string
  l_score :: "int option"
  l_notes :: "string option"
  l_tags :: jsval
  l_next_follow_up :: "nat option"
  l_created_at :: nat
  l_updated_at :: nat

record activity =
  a_id :: int
  a_lead_id :: int
  a_kind :: string
  a_title :: "string option"
  a_body :: "string option"
  a_extra :: jsval
  a_created_at :: nat

record db =
  practices :: "practice list"
  leads :: "lead list"
  activities :: "activity list"
  practices_id_seq :: int
  leads_id_seq :: int
  activities_id_seq :: int

definition empty_db :: db where
  "empty_db = \<lparr>practices = [], leads = [], activities = [],
               practices_id_seq = 0, leads_id_seq = 0, activities_id_seq = 0\<rparr>"

subsection \<open>Parameters as the server reads them\<close>

text \<open>
  VARCHAR(n) bounds the number of characters: in UTF-8, the bytes that are not
  continuation bytes (\<open>0x80\<close> to \<open>0xBF\<close>). A value wider than its column is
  rejected when the statement is planned, before a sequence is touched.
\<close>

definition char_length :: "string \<Rightarrow> nat" where
  "char_length s = length (filter (\<lambda>c. \<not> (128 \<le> (of_char c :: nat) \<and> (of_char c :: nat) < 192)) s)"

definition varchar :: "nat \<Rightarrow> string \<Rightarrow> bool" where
  "varchar n s = (char_length s \<le> n)"

definition varchar_opt :: "nat \<Rightarrow> string option \<Rightarrow> bool" where
  "varchar_opt n s = (case s of None \<Rightarrow> True | Some x \<Rightarrow> varchar n x)"

text \<open>
  The server takes the bytes of a text parameter only if they are well-formed UTF-8
  (the ranges of the second byte after \<open>0xE0\<close>, \<open>0xED\<close>, \<open>0xF0\<close> and \<open>0xF4\<close>
  exclude overlong forms, surrogates and code points beyond U+10FFFF) and hold no
  NUL character; it rejects the parameter, and with it the statement, before
  anything is executed.
\<close>

definition byte :: "char \<Rightarrow> nat" where
  "byte c = of_char c"

definition continuation :: "char \<Rightarrow> bool" where
  "continuation c = (128 \<le> byte c \<and> byte c < 192)"

fun well_formed :: "string \<Rightarrow> bool" where
  "well_formed [] = True"
| "well_formed (a # cs) =
     (if byte a < 128 then well_formed cs
      else if 194 \<le> byte a \<and> byte a \<le> 223
        then (case cs of b # r \<Rightarrow> continuation b \<and> well_formed r | _ \<Rightarrow> False)
      else if 224 \<le> byte a \<and> byte a \<le> 239
        then (case cs of
                b # c # r \<Rightarrow>
                  continuation b \<and> continuation c \<and>
                  (if byte a = 224 then 160 \<le> byte b else True) \<and>
                  (if byte a = 237 then byte b < 160 else True) \<and> well_formed r
              | _ \<Rightarrow> False)
      else if 240 \<le> byte a \<and> byte a \<le> 244
        then (case cs of
                b # c # e # r \<Rightarrow>
                  continuation b \<and> continuation c \<and> continuation e \<and>
                  (if byte a = 240 then 144 \<le> byte b else True) \<and>
                  (if byte a = 244 then byte b < 144 else True) \<and> well_formed r
              | _ \<Rightarrow> False)
      else False)"

definition text_ok :: "string \<Rightarrow> bool" where
  "text_ok s = (CHR 0x00 \<notin> set s \<and> well_formed s)"

definition text_ok_opt :: "string option \<Rightarrow> bool" where
  "text_ok_opt s = (case s of None \<Rightarrow> True | Some x \<Rightarrow> text_ok x)"

text \<open>
  A JSONB parameter is the text of \<open>JSON.stringify\<close>, which leaves out a property
  whose value is undefined and writes undefined in an array as null. The server
  reads the text as JSON and rejects it when a string or a property name in it holds
  a character that it does not store as text.
\<close>

fun jsonb_ok :: "jsval \<Rightarrow> bool" where
  "jsonb_ok (JStr s) = text_ok s"
| "jsonb_ok (JArr xs) = list_all jsonb_ok xs"
| "jsonb_ok (JObj kvs) =
     list_all (\<lambda>kv. snd kv = JUndefined \<or> (text_ok (fst kv) \<and> jsonb_ok (snd kv))) kvs"
| "jsonb_ok v = True"

text \<open>
  The driver sends a number as the text of \<open>Number.prototype.toString\<close>, and the
  server reads the text as an INTEGER: an integral value in the 32-bit range is
  accepted, anything else (a fraction, an exponent, NaN, Infinity, a value out of
  range) is an error.
\<close>

fun pg_int4 :: "jsnumber \<Rightarrow> error + int" where
  "pg_int4 (Finite r) =
     (if of_int \<lfloor>r\<rfloor> = r \<and> - 2147483648 \<le> \<lfloor>r\<rfloor> \<and> \<lfloor>r\<rfloor> \<le> 2147483647
      then Inr \<lfloor>r\<rfloor> else Inl DbError)"
| "pg_int4 n = Inl DbError"

text \<open>
  The driver sends null and undefined as NULL and a string as it is. How it writes
  any other value as text is the driver's business: \<open>enc\<close> stands for it.
\<close>

fun pg_text :: "(jsval \<Rightarrow> string) \<Rightarrow> jsval \<Rightarrow> string option" where
  "pg_text enc JUndefined = None"
| "pg_text enc JNull = None"
| "pg_text enc (JStr s) = Some s"
| "pg_text enc v = Some (enc v)"

text \<open>The number that \<open>parseInt\<close> returns.\<close>

definition js_number :: "int option \<Rightarrow> jsnumber" where
  "js_number n = (case n of None \<Rightarrow> NaN | Some k \<Rightarrow> Finite (of_int k))"

subsection \<open>getLeadById\<close>

text \<open>\<open>FROM leads l JOIN practices p ON p.id = l.practice_id\<close>\<close>

definition leads_join :: "db \<Rightarrow> (lead \<times> practice) list" where
  "leads_join d = [(l, p). l \<leftarrow> leads d, p \<leftarrow> practices d, p_id p = l_practice_id l]"

text \<open>
  The rows of the join with the given lead id; \<open>rows[0]\<close> is the first of them.
  \<open>practice && practice.id ? practice : null\<close> keeps the practice unless its id
  is 0.
\<close>

definition getLeadById :: "db \<Rightarrow> jsnumber \<Rightarrow> error + (lead \<times> practice option) option" where
  "getLeadById d leadId =
     (case pg_int4 leadId of
        Inl e \<Rightarrow> Inl e
      | Inr k \<Rightarrow>
          (case filter (\<lambda>row. l_id (fst row) = k) (leads_join d) of
             [] \<Rightarrow> Inr None
           | row # rest \<Rightarrow>
               Inr (Some (fst row, if p_id (snd row) \<noteq> 0 then Some (snd row) else None))))"

subsection \<open>updateLead\<close>

record lead_fields =
  f_status :: jsval
  f_notes :: jsval
  f_score :: jsval
  f_tags :: jsval

text \<open>\<open>status && LEAD_STATUSES.includes(status)\<close>: the status, when the test holds.\<close>

definition valid_status :: "jsval \<Rightarrow> string option" where
  "valid_status v =
     (case v of
        JStr s \<Rightarrow> if truthy v \<and> array_includes LEAD_STATUSES v then Some s else None
      | _ \<Rightarrow> None)"

text \<open>\<open>typeof score === 'number' && score >= 0 && score <= 100\<close>: the score, when the test holds.\<close>

definition valid_score :: "jsval \<Rightarrow> jsnumber option" where
  "valid_score v =
     (case v of
        JNum n \<Rightarrow> if is_number v \<and> num_ge n 0 \<and> num_le n 100 then Some n else None
      | _ \<Rightarrow> None)"

text \<open>\<open>Array.isArray(tags)\<close>: the elements, when the test holds.\<close>

definition valid_tags :: "jsval \<Rightarrow> jsval list option" where
  "valid_tags v = (case v of JArr xs \<Rightarrow> if isArray v then Some xs else None | _ \<Rightarrow> None)"

text \<open>The entries of \<open>updates\<close>, each with the parameter pushed for it.\<close>

datatype assignment =
    SetStatus string
  | SetNotes jsval
  | SetScore jsnumber
  | SetTags "jsval list"

definition lead_updates :: "lead_fields \<Rightarrow> assignment list" where
  "lead_updates f =
     (case valid_status (f_status f) of Some s \<Rightarrow> [SetStatus s] | None \<Rightarrow> []) @
     (if f_notes f \<noteq> JUndefined then [SetNotes (f_notes f)] else []) @
     (case valid_score (f_score f) of Some n \<Rightarrow> [SetScore n] | None \<Rightarrow> []) @
     (case valid_tags (f_tags f) of Some xs \<Rightarrow> [SetTags xs] | None \<Rightarrow> [])"

text \<open>
  The server reads each parameter as a value of the assigned column:
  status VARCHAR(50), notes TEXT, score INTEGER, tags JSONB (the text of
  \<open>JSON.stringify\<close> of the array). It rejects text and JSON that it does not
  store, a status wider than the column and a score that is not an integer.
\<close>

fun bind_assignment :: "(jsval \<Rightarrow> string) \<Rightarrow> assignment \<Rightarrow> error + (lead \<Rightarrow> lead)" where
  "bind_assignment enc (SetStatus s) =
     (if text_ok s \<and> varchar 50 s then Inr (\<lambda>l. l\<lparr>l_status := s\<rparr>) else Inl DbError)"
| "bind_assignment enc (SetNotes v) =
     (if text_ok_opt (pg_text enc v) then Inr (\<lambda>l. l\<lparr>l_notes := pg_text enc v\<rparr>)
      else Inl DbError)"
| "bind_assignment enc (SetScore n) =
     (case pg_int4 n of Inl e \<Rightarrow> Inl e | Inr k \<Rightarrow> Inr (\<lambda>l. l\<lparr>l_score := Some k\<rparr>))"
| "bind_assignment enc (SetTags xs) =
     (if jsonb_ok (JArr xs) then Inr (\<lambda>l. l\<lparr>l_tags := JArr xs\<rparr>) else Inl DbError)"

fun bind_all :: "(jsval \<Rightarrow> string) \<Rightarrow> assignment list \<Rightarrow> error + (lead \<Rightarrow> lead)" where
  "bind_all enc [] = Inr (\<lambda>l. l)"
| "bind_all enc (a # as) =
     (case bind_assignment enc a of
        Inl e \<Rightarrow> Inl e
      | Inr g \<Rightarrow> (case bind_all enc as of Inl e \<Rightarrow> Inl e | Inr h \<Rightarrow> Inr (\<lambda>l. h (g l))))"

text \<open>
  \<open>UPDATE leads SET ..., updated_at = NOW() WHERE id = $i\<close> on one row, and on the
  table: one statement, so a rejected parameter leaves every row as it was.
\<close>

definition update_row :: "(lead \<Rightarrow> lead) \<Rightarrow> nat \<Rightarrow> int \<Rightarrow> lead \<Rightarrow> lead" where
  "update_row g now k l = (if l_id l = k then (g l)\<lparr>l_updated_at := now\<rparr> else l)"

definition update_leads ::
  "(jsval \<Rightarrow> string) \<Rightarrow> nat \<Rightarrow> db \<Rightarrow> assignment list \<Rightarrow> jsnumber \<Rightarrow> db \<times> (error + unit)" where
  "update_leads enc now d updates leadId =
     (case bind_all enc updates of
        Inl e \<Rightarrow> (d, Inl e)
      | Inr g \<Rightarrow>
          (case pg_int4 leadId of
             Inl e \<Rightarrow> (d, Inl e)
           | Inr k \<Rightarrow>
               (d\<lparr>leads := map (update_row g now k) (leads d)\<rparr>, Inr ())))"

definition updateLead ::
  "(jsval \<Rightarrow> string) \<Rightarrow> nat \<Rightarrow> db \<Rightarrow> jsnumber \<Rightarrow> lead_fields
     \<Rightarrow> db \<times> (error + (lead \<times> practice option) option)" where
  "updateLead enc now d leadId f =
     (let updates = lead_updates f in
      if updates = [] then (d, getLeadById d leadId)
      else
        (case update_leads enc now d updates leadId of
           (d', Inl e) \<Rightarrow> (d', Inl e)
         | (d', Inr u) \<Rightarrow> (d', getLeadById d' leadId)))"

subsection \<open>addActivity\<close>

text \<open>
  \<open>INSERT INTO activities (lead_id, kind, title, body, extra) ... RETURNING *\<close>.
  The parameters are read first (the lead id as an INTEGER, the texts, the JSON of
  the metadata), then the widths of kind and title are checked; a statement rejected
  there leaves the database as it was. The row then takes the next value of the
  sequence, and the statement is rejected when the id is taken or when no lead has
  the given id (the foreign key); a value taken from a sequence is not given back.
\<close>

definition addActivity ::
  "nat \<Rightarrow> db \<Rightarrow> jsnumber \<Rightarrow> string \<Rightarrow> string \<Rightarrow> string \<Rightarrow> jsval \<Rightarrow> db \<times> (error + activity)" where
  "addActivity now d leadId kind title body metadata =
     (case pg_int4 leadId of
        Inl e \<Rightarrow> (d, Inl e)
      | Inr k \<Rightarrow>
          if \<not> (text_ok kind \<and> text_ok title \<and> text_ok body \<and> jsonb_ok metadata)
          then (d, Inl DbError)
          else if \<not> varchar 50 kind \<or> \<not> varchar 255 title then (d, Inl DbError)
          else
            (let i = activities_id_seq d + 1;
                 d1 = d\<lparr>activities_id_seq := i\<rparr>;
                 row = \<lparr>a_id = i, a_lead_id = k, a_kind = kind, a_title = Some title,
                        a_body = Some body, a_extra = metadata, a_created_at = now\<rparr>
             in if i \<in> set (map a_id (activities d)) then (d1, Inl DbError)
                else if k \<notin> set (map l_id (leads d)) then (d1, Inl DbError)
                else (d1\<lparr>activities := activities d @ [row]\<rparr>, Inr row)))"

section \<open>PATCH /api/leads/:id\<close>

record lead_json =
  j_id :: int
  j_practice_id :: int
  j_status :: string
  j_score :: int
  j_notes :: string
  j_tags :: jsval

datatype response = Json lead_json | NotFound | ServerError

text \<open>
  The title of the template literal: \<open>Status\<close>, a space, the eight bytes that stand
  between the two spaces in the source file, a space, the status.
\<close>

definition status_title :: "string \<Rightarrow> string" where
  "status_title s =
     ''Status '' @
     [CHR 0xC3, CHR 0xA2, CHR 0xE2, CHR 0x80, CHR 0xA0, CHR 0xE2, CHR 0x80, CHR 0x99] @
     '' '' @ s"

text \<open>
  The body of the response: \<open>lead.score ?? 0\<close>, \<open>lead.notes || ''\<close>,
  \<open>lead.tags || []\<close>.
\<close>

definition lead_json_of :: "lead \<Rightarrow> lead_json" where
  "lead_json_of l =
     \<lparr>j_id = l_id l, j_practice_id = l_practice_id l, j_status = l_status l,
      j_score = (case l_score l of None \<Rightarrow> 0 | Some n \<Rightarrow> n),
      j_notes = str_or (l_notes l) [] (\<lambda>s. s),
      j_tags = js_or (l_tags l) (JArr [])\<rparr>"

text \<open>
  The second half of the handler: \<open>updateLead\<close> and the response. Reading
  \<open>lead.id\<close> of null throws.
\<close>

definition patch_update ::
  "(jsval \<Rightarrow> string) \<Rightarrow> nat \<Rightarrow> db \<Rightarrow> jsnumber \<Rightarrow> lead_fields \<Rightarrow> db \<times> response" where
  "patch_update enc now d leadId data =
     (case updateLead enc now d leadId
             \<lparr>f_status = f_status data, f_notes = f_notes data,
              f_score = f_score data, f_tags = f_tags data\<rparr> of
        (d', Inl e) \<Rightarrow> (d', ServerError)
      | (d', Inr None) \<Rightarrow> (d', ServerError)
      | (d', Inr (Some (l, p))) \<Rightarrow> (d', Json (lead_json_of l)))"

text \<open>
  The handler. \<open>idp\<close> is the path parameter, \<open>data\<close> the four properties of the body
  that the handler reads (undefined when the body lacks them), \<open>t1\<close> and \<open>t2\<close> the
  clock readings of the two writing statements. The result lists the states of the
  database after each of the two calls that can write, in the order of the calls:
  after \<open>addActivity\<close> if it is called, then after \<open>updateLead\<close>.
\<close>

definition patch_lead ::
  "(jsval \<Rightarrow> string) \<Rightarrow> nat \<Rightarrow> nat \<Rightarrow> db \<Rightarrow> string \<Rightarrow> lead_fields \<Rightarrow> db list \<times> response" where
  "patch_lead enc t1 t2 d idp data =
     (let leadId = js_number (parseInt10 idp) in
      case getLeadById d leadId of
        Inl e \<Rightarrow> ([], ServerError)
      | Inr None \<Rightarrow> ([], NotFound)
      | Inr (Some lead) \<Rightarrow>
          (case valid_status (f_status data) of
             None \<Rightarrow> (case patch_update enc t2 d leadId data of (d2, r) \<Rightarrow> ([d2], r))
           | Some s \<Rightarrow>
               (case addActivity t1 d leadId ''status_change'' (status_title s) [] (JObj []) of
                  (d1, Inl e) \<Rightarrow> ([d1], ServerError)
                | (d1, Inr a) \<Rightarrow>
                    (case patch_update enc t2 d1 leadId data of (d2, r) \<Rightarrow> ([d1, d2], r)))))"

text \<open>The database after a request that started in \<open>d\<close>.\<close>

definition final_db :: "db \<Rightarrow> db list \<times> response \<Rightarrow> db" where
  "final_db d res = last (d # fst res)"

text \<open>
  The database after the same request has been sent once for each pair of clock
  readings of the list.
\<close>

fun patch_repeat ::
  "(jsval \<Rightarrow> string) \<Rightarrow> db \<Rightarrow> string \<Rightarrow> lead_fields \<Rightarrow> (nat \<times> nat) list \<Rightarrow> db" where
  "patch_repeat enc d idp data [] = d"
| "patch_repeat enc d idp data (t # ts) =
     patch_repeat enc (final_db d (patch_lead enc (fst t) (snd t) d idp data)) idp data ts"

section \<open>GET /api/n8n/leads\<close>

record n8n_practice =
  np_id :: int
  np_name :: string
  np_email :: string
  np_contact :: string
  np_website :: string
  np_address :: string

record n8n_lead =
  n_lead_id :: int
  n_practice_id :: int
  n_status :: string
  n_outreach_stage :: stage
  n_practice :: "n8n_practice option"

definition n8n_row :: "lead \<times> practice \<Rightarrow> n8n_lead" where
  "n8n_row row =
     (case row of (l, p) \<Rightarrow>
        \<lparr>n_lead_id = l_id l, n_practice_id = p_id p, n_status = l_status l,
         n_outreach_stage = outreach_stage (l_status l),
         n_practice =
           (if p_id p \<noteq> 0
            then Some \<lparr>np_id = p_id p,
                       np_name = str_or (Some (p_name p)) [] (\<lambda>s. s),
                       np_email = str_or (p_email p) [] (\<lambda>s. s),
                       np_contact = str_or (p_contact p) [] (\<lambda>s. s),
                       np_website = str_or (p_website p) [] (\<lambda>s. s),
                       np_address = str_or (p_address p) [] (\<lambda>s. s)\<rparr>
            else None)\<rparr>)"

text \<open>
  The rows that the SELECT returns: the join, the WHERE clause (the status when
  \<open>status\<close> is truthy, the email when \<open>withEmailOnly\<close>), ORDER BY l.id, LIMIT.
  A negative LIMIT is rejected by the server.
\<close>

definition n8n_where :: "string option \<Rightarrow> bool \<Rightarrow> lead \<times> practice \<Rightarrow> bool" where
  "n8n_where status withEmailOnly row =
     (case row of (l, p) \<Rightarrow>
        str_or status True (\<lambda>s. l_status l = s) \<and>
        (if withEmailOnly then p_email p \<noteq> None \<and> p_email p \<noteq> Some [] else True))"

definition n8n_select :: "db \<Rightarrow> int \<Rightarrow> string option \<Rightarrow> bool \<Rightarrow> error + (lead \<times> practice) list" where
  "n8n_select d limit status withEmailOnly =
     (if limit < 0 then Inl DbError
      else Inr (take (nat limit)
             (sort_key (\<lambda>row. l_id (fst row))
                (filter (n8n_where status withEmailOnly) (leads_join d)))))"

definition listLeadsForN8n :: "db \<Rightarrow> int \<Rightarrow> string option \<Rightarrow> bool \<Rightarrow> error + n8n_lead list" where
  "listLeadsForN8n d limit status withEmailOnly =
     (case n8n_select d limit status withEmailOnly of
        Inl e \<Rightarrow> Inl e
      | Inr rows \<Rightarrow> Inr (map n8n_row rows))"

text \<open>The route: \<open>listLeadsForN8n(limit, status, true)\<close>.\<close>

definition n8n_leads :: "db \<Rightarrow> string option \<Rightarrow> string option \<Rightarrow> error + n8n_lead list" where
  "n8n_leads d q_status q_limit =
     listLeadsForN8n d (route_limit q_limit) (route_status q_status) True"

section \<open>Ingestion\<close>

text \<open>
  An element of \<open>architects.json\<close>: the text properties are strings or missing
  (\<open>None\<close>), the two lists are JSON values.
\<close>

record scraped =
  r_url :: "string option"
  r_name :: "string option"
  r_website :: "string option"
  r_socials :: jsval
  r_email :: "string option"
  r_address :: "string option"
  r_contact :: "string option"
  r_description :: "string option"
  r_years_active :: "string option"
  r_staff :: "string option"
  r_awards :: jsval
  r_source :: "string option"

text \<open>The row proposed for insertion: the twelve parameters, \<open>x || null\<close> and the like.\<close>

definition proposed :: "nat \<Rightarrow> int \<Rightarrow> string \<Rightarrow> scraped \<Rightarrow> practice" where
  "proposed now i u r =
     \<lparr>p_id = i, p_url = u,
      p_name = str_or (r_name r) [] (\<lambda>s. s),
      p_website = str_or (r_website r) None Some,
      p_socials = js_or (r_socials r) (JArr []),
      p_email = str_or (r_email r) None Some,
      p_address = str_or (r_address r) None Some,
      p_contact = str_or (r_contact r) None Some,
      p_description = str_or (r_description r) None Some,
      p_years_active = str_or (r_years_active r) None Some,
      p_staff = str_or (r_staff r) None Some,
      p_awards = js_or (r_awards r) (JArr []),
      p_source = Some (str_or (r_source r) ''architect_directory'' (\<lambda>s. s)),
      p_created_at = now, p_updated_at = now\<rparr>"

text \<open>The widths of the VARCHAR columns of practices.\<close>

definition practice_fits :: "practice \<Rightarrow> bool" where
  "practice_fits p =
     (varchar 500 (p_url p) \<and> varchar 300 (p_name p) \<and> varchar_opt 500 (p_website p) \<and>
      varchar_opt 255 (p_email p) \<and> varchar_opt 255 (p_contact p) \<and>
      varchar_opt 50 (p_years_active p) \<and> varchar_opt 50 (p_staff p) \<and>
      varchar_opt 50 (p_source p))"

text \<open>The text and JSON parameters of the row are such that the server reads them.\<close>

definition practice_text_ok :: "practice \<Rightarrow> bool" where
  "practice_text_ok p =
     (text_ok (p_url p) \<and> text_ok (p_name p) \<and> text_ok_opt (p_website p) \<and>
      jsonb_ok (p_socials p) \<and> text_ok_opt (p_email p) \<and> text_ok_opt (p_address p) \<and>
      text_ok_opt (p_contact p) \<and> text_ok_opt (p_description p) \<and>
      text_ok_opt (p_years_active p) \<and> text_ok_opt (p_staff p) \<and>
      jsonb_ok (p_awards p) \<and> text_ok_opt (p_source p))"

text \<open>\<open>DO UPDATE SET\<close>: every column but id, url and created_at is taken from the proposed row.\<close>

definition overwrite :: "practice \<Rightarrow> practice \<Rightarrow> practice" where
  "overwrite new old = new\<lparr>p_id := p_id old, p_url := p_url old, p_created_at := p_created_at old\<rparr>"

text \<open>
  \<open>INSERT INTO practices ... ON CONFLICT (url) DO UPDATE ... RETURNING id\<close>. A
  parameter that the server does not read as text or JSON, and a value wider than
  its column, are rejected before the sequence is touched (for a url that is NULL
  the other values are checked, the empty text standing for the url). The proposed
  row then takes the next value of the sequence, before the conflict on url is
  looked for; a url that is NULL and an id that is taken are rejected then.
\<close>

definition upsertPractice :: "nat \<Rightarrow> db \<Rightarrow> scraped \<Rightarrow> db \<times> (error + int)" where
  "upsertPractice now d record =
     (let i = practices_id_seq d + 1;
          d1 = d\<lparr>practices_id_seq := i\<rparr>;
          row = proposed now i (case r_url record of None \<Rightarrow> [] | Some u \<Rightarrow> u) record
      in if \<not> practice_text_ok row then (d, Inl DbError)
         else if \<not> practice_fits row then (d, Inl DbError)
         else
           (case r_url record of
              None \<Rightarrow> (d1, Inl DbError)
            | Some u \<Rightarrow>
                (case find (\<lambda>p. p_url p = u) (practices d) of
                   Some old \<Rightarrow>
                     (d1\<lparr>practices :=
                           map (\<lambda>p. if p_url p = u then overwrite row p else p) (practices d)\<rparr>,
                      Inr (p_id old))
                 | None \<Rightarrow>
                     if i \<in> set (map p_id (practices d)) then (d1, Inl DbError)
                     else (d1\<lparr>practices := practices d @ [row]\<rparr>, Inr i))))"

text \<open>
  \<open>ensureLead\<close>: the id of the first lead of the practice, or an INSERT with the
  defaults of the schema (score 0, no notes, no tags). The INSERT is rejected when
  the id is taken or when no practice has the given id (the foreign key).
\<close>

definition ensureLead :: "nat \<Rightarrow> db \<Rightarrow> int \<Rightarrow> db \<times> (error + int)" where
  "ensureLead now d practiceId =
     (case find (\<lambda>l. l_practice_id l = practiceId) (leads d) of
        Some l \<Rightarrow> (d, Inr (l_id l))
      | None \<Rightarrow>
          (let i = leads_id_seq d + 1;
               d1 = d\<lparr>leads_id_seq := i\<rparr>;
               row = \<lparr>l_id = i, l_practice_id = practiceId, l_status = ''new'',
                      l_score = Some 0, l_notes = None, l_tags = JArr [],
                      l_next_follow_up = None, l_created_at = now, l_updated_at = now\<rparr>
           in if i \<in> set (map l_id (leads d)) then (d1, Inl DbError)
              else if practiceId \<notin> set (map p_id (practices d)) then (d1, Inl DbError)
              else (d1\<lparr>leads := leads d @ [row]\<rparr>, Inr i)))"

text \<open>
  One round of the loop of the populate script on an element of the array (\<open>None\<close>
  is a null element): skipped when \<open>!record || !record.url\<close>, else
  \<open>upsertPractice\<close> then \<open>ensureLead\<close>, at the clock readings \<open>t1\<close> and \<open>t2\<close>. The
  result is what \<open>ensureLead\<close> returned, \<open>None\<close> for a skipped element.
\<close>

definition ingest :: "db \<Rightarrow> nat \<times> nat \<times> scraped option \<Rightarrow> db \<times> (error + int option)" where
  "ingest d x =
     (case x of (t1, t2, rec) \<Rightarrow>
        (case rec of
           None \<Rightarrow> (d, Inr None)
         | Some record \<Rightarrow>
             str_or (r_url record) (d, Inr None)
               (\<lambda>u. case upsertPractice t1 d record of
                       (d1, Inl e) \<Rightarrow> (d1, Inl e)
                     | (d1, Inr i) \<Rightarrow>
                         (case ensureLead t2 d1 i of
                            (d2, Inl e) \<Rightarrow> (d2, Inl e)
                          | (d2, Inr k) \<Rightarrow> (d2, Inr (Some k))))))"

text \<open>The loop: an exception ends the script.\<close>

fun populate :: "db \<Rightarrow> (nat \<times> nat \<times> scraped option) list \<Rightarrow> db \<times> (error + unit)" where
  "populate d [] = (d, Inr ())"
| "populate d (x # xs) =
     (case ingest d x of
        (d1, Inl e) \<Rightarrow> (d1, Inl e)
      | (d1, Inr k) \<Rightarrow> populate d1 xs)"

text \<open>
  The values of a scraped record are such that the server reads them and they fit
  the VARCHAR columns of practices.
\<close>

definition record_accepted :: "scraped \<Rightarrow> bool" where
  "record_accepted r =
     (case r_url r of
        None \<Rightarrow> True
      | Some u \<Rightarrow> practice_text_ok (proposed 0 0 u r) \<and> practice_fits (proposed 0 0 u r))"

section \<open>The constraints of the schema\<close>

text \<open>
  What PostgreSQL maintains for the tables of \<open>initSchema\<close>: the primary keys, the
  UNIQUE columns url and practice_id, the foreign keys, and sequences that are not
  behind the ids they have handed out.
\<close>

definition wf_db :: "db \<Rightarrow> bool" where
  "wf_db d =
     (distinct (map p_id (practices d)) \<and> distinct (map p_url (practices d)) \<and>
      distinct (map l_id (leads d)) \<and> distinct (map l_practice_id (leads d)) \<and>
      distinct (map a_id (activities d)) \<and>
      list_all (\<lambda>p. p_id p \<le> practices_id_seq d) (practices d) \<and>
      list_all (\<lambda>l. l_id l \<le> leads_id_seq d \<and> l_practice_id l \<in> set (map p_id (practices d)))
        (leads d) \<and>
      list_all (\<lambda>a. a_id a \<le> activities_id_seq d \<and> a_lead_id a \<in> set (map l_id (leads d)))
        (activities d))"

section \<open>What an update writes\<close>

text \<open>
  The row that \<open>updateLead\<close> is expected to leave in place of \<open>l\<close> when the server
  accepts the statement: each of the four columns takes the supplied value if that
  value passes its test, and keeps its own otherwise. The server accepts the
  statement when the score that passes the test of \<open>updateLead\<close> is an integer, the
  notes are text that it stores and the tags are JSON that it stores.
\<close>

definition written :: "(jsval \<Rightarrow> string) \<Rightarrow> lead_fields \<Rightarrow> lead \<Rightarrow> lead" where
  "written enc f l =
     l\<lparr>l_status := (case valid_status (f_status f) of None \<Rightarrow> l_status l | Some s \<Rightarrow> s),
       l_notes := (if f_notes f = JUndefined then l_notes l else pg_text enc (f_notes f)),
       l_score := (case valid_score (f_score f) of
                     None \<Rightarrow> l_score l
                   | Some n \<Rightarrow> (case pg_int4 n of Inl e \<Rightarrow> l_score l | Inr k \<Rightarrow> Some k)),
       l_tags := (case valid_tags (f_tags f) of None \<Rightarrow> l_tags l | Some xs \<Rightarrow> JArr xs)\<rparr>"

definition score_accepted :: "lead_fields \<Rightarrow> bool" where
  "score_accepted f =
     (case valid_score (f_score f) of None \<Rightarrow> True | Some n \<Rightarrow> pg_int4 n \<noteq> Inl DbError)"

definition notes_accepted :: "(jsval \<Rightarrow> string) \<Rightarrow> lead_fields \<Rightarrow> bool" where
  "notes_accepted enc f = text_ok_opt (pg_text enc (f_notes f))"

definition tags_accepted :: "lead_fields \<Rightarrow> bool" where
  "tags_accepted f =
     (case valid_tags (f_tags f) of None \<Rightarrow> True | Some xs \<Rightarrow> jsonb_ok (JArr xs))"

definition update_accepted :: "(jsval \<Rightarrow> string) \<Rightarrow> lead_fields \<Rightarrow> bool" where
  "update_accepted enc f = (score_accepted f \<and> notes_accepted enc f \<and> tags_accepted f)"

text \<open>
  The status that the feed is asked for is text that the server reads. The query of
  the feed binds a truthy status as a text parameter; \<open>n8n_select\<close> compares the
  status as it is given.
\<close>

definition status_ok :: "string option \<Rightarrow> bool" where
  "status_ok status = str_or status True text_ok"

section \<open>An example database\<close>

text \<open>
  Two scraped practices, the first with an email address and the second without,
  and the database that the populate script builds from them.
\<close>

definition acme :: scraped where
  "acme = \<lparr>r_url = Some ''a.example/1'', r_name = Some ''Acme Arch'', r_website = None,
            r_socials = JUndefined, r_email = Some ''x@a.example'', r_address = None,
            r_contact = None, r_description = None, r_years_active = None, r_staff = None,
            r_awards = JUndefined, r_source = None\<rparr>"

definition beta :: scraped where
  "beta = \<lparr>r_url = Some ''b.example/2'', r_name = Some ''Beta Build'', r_website = None,
            r_socials = JUndefined, r_email = None, r_address = None,
            r_contact = None, r_description = None, r_years_active = None, r_staff = None,
            r_awards = JUndefined, r_source = None\<rparr>"

definition demo_db :: db where
  "demo_db = fst (populate empty_db [(1, 2, Some acme), (3, 4, Some beta)])"

text \<open>
  The same database after a writer other than this program has set the status of
  every lead to \<open>constructor\<close>: the column is VARCHAR(50) and has no CHECK.
\<close>

definition odd_db :: db where
  "odd_db = demo_db\<lparr>leads := map (\<lambda>l. l\<lparr>l_status := ''constructor''\<rparr>) (leads demo_db)\<rparr>"

text \<open>
  The first lead and the first practice of the example database, and a stand-in for
  the driver's encoding.
\<close>

definition demo_lead :: lead where
  "demo_lead = hd (leads demo_db)"

definition demo_practice :: practice where
  "demo_practice = hd (practices demo_db)"

definition demo_enc :: "jsval \<Rightarrow> string" where
  "demo_enc v = []"

section \<open>The stage resolver\<close>

lemma outreach_stage_enum:
  "map outreach_stage LEAD_STATUSES =
     [Str ''cold'', Str ''no_reply'', Str ''positive_reply'', Str ''positive_reply'',
      Str ''positive_reply'', Str ''positive_reply'', Str ''negative_reply'']"
  by (simp add: LEAD_STATUSES_def outreach_stage_def stageMap_def stageMap_own_def)

lemma outreach_stage_default:
  assumes "s \<notin> set LEAD_STATUSES" and "s \<notin> set Object_prototype"
  shows "outreach_stage s = Str ''cold''"
proof -
  have "map_of stageMap_own s = None"
    using assms(1) by (simp add: LEAD_STATUSES_def stageMap_own_def)
  with assms(2) show ?thesis
    by (simp add: outreach_stage_def stageMap_def)
qed

text \<open>
  C1. The resolver returns the table's stage for each status of the enum, but not
  \<open>cold\<close> for every other string: \<open>constructor\<close> is outside the enum, and the lookup
  in the object literal finds the member inherited from \<open>Object.prototype\<close>, which
  is truthy, so the default is not taken. The feed, asked for the leads of that
  status, returns the lead with that member as its stage.
\<close>

theorem outreach_stage_constructor:
  "''constructor'' \<notin> set LEAD_STATUSES \<and>
   outreach_stage ''constructor'' = Inherited ''constructor'' \<and>
   outreach_stage ''constructor'' \<noteq> Str ''cold'' \<and>
   (case n8n_leads odd_db (Some ''constructor'') None of
      Inl e \<Rightarrow> False
    | Inr rows \<Rightarrow> map n_lead_id rows = [1] \<and>
                 map n_outreach_stage rows = [Inherited ''constructor''])"
  by code_simp

section \<open>The limit of the automation feed\<close>

text \<open>
  C5, as the claim states it: an out-of-range limit would fall back to 200. The
  limit 1000 is out of range and gives 500.
\<close>

theorem route_limit_1000:
  "parseInt10 ''1000'' = Some 1000 \<and> route_limit (Some ''1000'') = 500 \<and>
   route_limit (Some ''1000'') \<noteq> 200"
  by code_simp

text \<open>
  C5, amended. The limit passed to the query is always between 1 and 500. What
  counts is the integer that \<open>parseInt\<close> reads from the start of the parameter,
  after white space and a sign. A missing limit, a limit from which no integer is
  read, and one from which 0 is read give 200; any other integer is clamped: below 1
  it gives 1, above 500 it gives 500, and an integer from 1 to 500 is kept.
\<close>

theorem route_limit_clamps:
  "1 \<le> route_limit q \<and> route_limit q \<le> 500 \<and> route_limit None = 200 \<and>
   route_limit q =
     (case parseInt10 (query_string q) of
        None \<Rightarrow> 200
      | Some n \<Rightarrow> if n = 0 then 200 else if n < 1 then 1 else if 500 < n then 500 else n)"
proof -
  have "parseInt10 ''undefined'' = None" by code_simp
  then have "route_limit None = 200"
    by (simp add: route_limit_def query_string_def)
  then show ?thesis
    by (auto simp: route_limit_def split: option.splits)
qed

section \<open>The automation feed\<close>

lemma n_lead_id_row: "n_lead_id (n8n_row row) = l_id (fst row)"
  by (cases row) (simp add: n8n_row_def)

lemma n8n_select_sorted:
  assumes "n8n_select d limit status w = Inr rows"
  shows "sorted (map (\<lambda>row. l_id (fst row)) rows)"
proof -
  let ?xs = "filter (n8n_where status w) (leads_join d)"
  from assms have rows: "rows = take (nat limit) (sort_key (\<lambda>row. l_id (fst row)) ?xs)"
    by (auto simp: n8n_select_def split: if_splits)
  have "sorted (map (\<lambda>row. l_id (fst row)) (sort_key (\<lambda>row. l_id (fst row)) ?xs))"
    by (rule sorted_sort_key)
  then have "sorted (take (nat limit) (map (\<lambda>row. l_id (fst row)) (sort_key (\<lambda>row. l_id (fst row)) ?xs)))"
    by (rule sorted_wrt_take)
  then show ?thesis
    by (simp add: rows take_map)
qed

lemma filter_key_atmost_one:
  "distinct (map f xs) \<Longrightarrow> filter (\<lambda>x. f x = k) xs = [] \<or> (\<exists>x. filter (\<lambda>x. f x = k) xs = [x])"
proof (induction xs)
  case Nil
  then show ?case by simp
next
  case (Cons a xs)
  show ?case
  proof (cases "f a = k")
    case True
    from Cons.prems have "f a \<notin> f ` set xs" by simp
    with True have "\<forall>x\<in>set xs. f x \<noteq> k" by blast
    then have "filter (\<lambda>x. f x = k) xs = []" by (simp add: filter_empty_conv)
    with True show ?thesis by simp
  next
    case False
    with Cons show ?thesis by simp
  qed
qed

lemma leads_join_set:
  "set (leads_join d) =
     {(l, p). l \<in> set (leads d) \<and> p \<in> set (practices d) \<and> p_id p = l_practice_id l}"
  by (auto simp: leads_join_def)

lemma leads_join_distinct:
  assumes "distinct (map p_id (practices d))" and "distinct (map l_id (leads d))"
  shows "distinct (map (\<lambda>row. l_id (fst row)) (leads_join d))"
proof -
  have "distinct (map l_id ls) \<Longrightarrow>
     distinct (map (\<lambda>row. l_id (fst row))
       [(l, p). l \<leftarrow> ls, p \<leftarrow> practices d, p_id p = l_practice_id l])" for ls :: "lead list"
  proof (induction ls)
    case Nil
    then show ?case by simp
  next
    case (Cons a ls)
    let ?ps = "practices d"
    have one: "filter (\<lambda>p. p_id p = l_practice_id a) ?ps = [] \<or>
        (\<exists>x. filter (\<lambda>p. p_id p = l_practice_id a) ?ps = [x])"
      using assms(1) by (rule filter_key_atmost_one)
    have eq: "concat (map (\<lambda>p. if p_id p = l_practice_id a then [(a, p)] else []) ps)
        = map (Pair a) (filter (\<lambda>p. p_id p = l_practice_id a) ps)" for ps :: "practice list"
      by (induction ps) auto
    from Cons have IH: "distinct (map (\<lambda>row. l_id (fst row))
        [(l, p). l \<leftarrow> ls, p \<leftarrow> ?ps, p_id p = l_practice_id l])"
      by simp
    from Cons.prems have notin: "l_id a \<notin> l_id ` set ls" by simp
    show ?case
      using one IH notin by (auto simp: eq)
  qed
  with assms(2) show ?thesis by (simp add: leads_join_def)
qed



lemma n8n_select_distinct:
  assumes "n8n_select d limit status w = Inr rows"
    and "distinct (map l_id (leads d))" and "distinct (map p_id (practices d))"
  shows "distinct (map (\<lambda>row. l_id (fst row)) rows)"
proof -
  let ?j = "leads_join d"
  let ?k = "\<lambda>row :: lead \<times> practice. l_id (fst row)"
  from assms(1) have rows: "rows = take (nat limit) (sort_key ?k (filter (n8n_where status w) ?j))"
    by (auto simp: n8n_select_def split: if_splits)
  have "distinct (map ?k ?j)"
    using assms(3,2) by (rule leads_join_distinct)
  then have "distinct (map ?k (filter (n8n_where status w) ?j))"
    by (rule distinct_map_filter)
  then have "distinct (map ?k (sort_key ?k (filter (n8n_where status w) ?j)))"
    by (simp add: distinct_map)
  then have "distinct (take (nat limit) (map ?k (sort_key ?k (filter (n8n_where status w) ?j))))"
    by (rule distinct_take)
  then show ?thesis by (simp add: rows take_map)
qed


lemma sorted_key_unique:
  assumes "sorted (map k xs)" and "distinct (map k xs)"
    and "sorted (map k ys)" and "distinct (map k ys)" and "set xs = set ys"
  shows "xs = ys"
proof -
  from assms(5) have "set (map k xs) = set (map k ys)" by simp
  with assms(1-4) have m: "map k xs = map k ys"
    by (intro sorted_distinct_set_unique)
  from assms(2,5) have "inj_on k (set xs \<union> set ys)"
    by (simp add: distinct_map)
  with m show ?thesis by (simp add: inj_on_map_eq_map)
qed

lemma feed_rows_store_only:
  assumes k: "distinct (map l_id (leads d))" "distinct (map p_id (practices d))"
    and k': "distinct (map l_id (leads d'))" "distinct (map p_id (practices d'))"
    and same: "set (leads d') = set (leads d)" "set (practices d') = set (practices d)"
  shows "sort_key (\<lambda>row. l_id (fst row)) (filter P (leads_join d')) =
         sort_key (\<lambda>row. l_id (fst row)) (filter P (leads_join d))"
proof (rule sorted_key_unique [where k = "\<lambda>row. l_id (fst row)"])
  have dj: "distinct (map (\<lambda>row. l_id (fst row)) (filter P (leads_join e)))"
    if "distinct (map l_id (leads e))" "distinct (map p_id (practices e))" for e
    using that by (intro distinct_map_filter leads_join_distinct)
  show "sorted (map (\<lambda>row. l_id (fst row)) (sort_key (\<lambda>row. l_id (fst row)) (filter P (leads_join d'))))"
    by (rule sorted_sort_key)
  show "sorted (map (\<lambda>row. l_id (fst row)) (sort_key (\<lambda>row. l_id (fst row)) (filter P (leads_join d))))"
    by (rule sorted_sort_key)
  from dj [OF k'] show "distinct (map (\<lambda>row. l_id (fst row))
      (sort_key (\<lambda>row. l_id (fst row)) (filter P (leads_join d'))))"
    by (simp add: distinct_map)
  from dj [OF k] show "distinct (map (\<lambda>row. l_id (fst row))
      (sort_key (\<lambda>row. l_id (fst row)) (filter P (leads_join d))))"
    by (simp add: distinct_map)
  from same show "set (sort_key (\<lambda>row. l_id (fst row)) (filter P (leads_join d'))) =
      set (sort_key (\<lambda>row. l_id (fst row)) (filter P (leads_join d)))"
    by (simp add: leads_join_set)
qed

text \<open>
  C8. For every limit that the server accepts, every status that it reads as text
  and either value of \<open>withEmailOnly\<close>, \<open>listLeadsForN8n\<close> returns the first
  \<open>limit\<close> rows of a list that holds exactly the rows of the join that pass the
  WHERE clause, each as often as the join has it, in ascending order of lead id.
  Where the primary keys of leads and practices hold, no two returned leads share an
  id, and the result is the same for every store with the same rows, in whatever
  order the tables hold them: a poll over an unchanged store returns the same
  sequence.
\<close>

theorem listLeadsForN8n_ordered:
  assumes "0 \<le> limit" and "status_ok status"
  shows "\<exists>all. mset all = mset (filter (n8n_where status w) (leads_join d)) \<and>
           sorted (map (\<lambda>row. l_id (fst row)) all) \<and>
           listLeadsForN8n d limit status w = Inr (map n8n_row (take (nat limit) all)) \<and>
           sorted (map n_lead_id (map n8n_row (take (nat limit) all))) \<and>
           (distinct (map l_id (leads d)) \<and> distinct (map p_id (practices d)) \<longrightarrow>
              sorted_wrt (<) (map n_lead_id (map n8n_row (take (nat limit) all))) \<and>
              (\<forall>d'. set (leads d') = set (leads d) \<and> set (practices d') = set (practices d) \<and>
                    distinct (map l_id (leads d')) \<and> distinct (map p_id (practices d'))
                 \<longrightarrow> listLeadsForN8n d' limit status w = listLeadsForN8n d limit status w))"
proof -
  let ?k = "\<lambda>row :: lead \<times> practice. l_id (fst row)"
  let ?all = "sort_key ?k (filter (n8n_where status w) (leads_join d))"
  from assms(1) have sel: "n8n_select d limit status w = Inr (take (nat limit) ?all)"
    by (simp add: n8n_select_def)
  then have res: "listLeadsForN8n d limit status w = Inr (map n8n_row (take (nat limit) ?all))"
    by (simp add: listLeadsForN8n_def)
  have ids: "map n_lead_id (map n8n_row rows) = map ?k rows" for rows
    by (simp add: n_lead_id_row)
  have s: "sorted (map n_lead_id (map n8n_row (take (nat limit) ?all)))"
    unfolding ids using sel by (rule n8n_select_sorted)
  have strict: "sorted_wrt (<) (map n_lead_id (map n8n_row (take (nat limit) ?all)))"
    if "distinct (map l_id (leads d))" "distinct (map p_id (practices d))"
  proof -
    have "distinct (map n_lead_id (map n8n_row (take (nat limit) ?all)))"
      unfolding ids using sel that by (rule n8n_select_distinct)
    with s show ?thesis by (simp add: strict_sorted_iff)
  qed
  have same: "listLeadsForN8n d' limit status w = listLeadsForN8n d limit status w"
    if "distinct (map l_id (leads d))" "distinct (map p_id (practices d))"
      "set (leads d') = set (leads d)" "set (practices d') = set (practices d)"
      "distinct (map l_id (leads d'))" "distinct (map p_id (practices d'))" for d'
  proof -
    have "sort_key ?k (filter (n8n_where status w) (leads_join d')) = ?all"
      using that(1,2,5,6,3,4) by (rule feed_rows_store_only)
    then show ?thesis
      by (simp add: listLeadsForN8n_def n8n_select_def)
  qed
  have "mset ?all = mset (filter (n8n_where status w) (leads_join d))" by simp
  moreover have "sorted (map ?k ?all)" by (rule sorted_sort_key)
  ultimately show ?thesis
    using res s strict same by (intro exI [of _ ?all]) blast
qed

theorem listLeadsForN8n_ordered_witness:
  "0 \<le> (200::int) \<and> status_ok (Some ''new'') \<and>
   distinct (map l_id (leads demo_db)) \<and> distinct (map p_id (practices demo_db)) \<and>
   (\<exists>all. mset all = mset (filter (n8n_where (Some ''new'') False) (leads_join demo_db)) \<and>
      listLeadsForN8n demo_db 200 (Some ''new'') False = Inr (map n8n_row (take (nat 200) all)) \<and>
      sorted_wrt (<) (map n_lead_id (map n8n_row (take (nat 200) all)))) \<and>
   map n_lead_id (projr (listLeadsForN8n demo_db 200 (Some ''new'') False)) = [1, 2]"
proof -
  have h: "distinct (map l_id (leads demo_db)) \<and> distinct (map p_id (practices demo_db))"
    by code_simp
  have st: "status_ok (Some ''new'')" by code_simp
  have v: "map n_lead_id (projr (listLeadsForN8n demo_db 200 (Some ''new'') False)) = [1, 2]"
    by code_simp
  from listLeadsForN8n_ordered [of 200 "Some ''new''" False demo_db] h st v show ?thesis
    by (simp del: ex_simps) blast
qed




section \<open>updateLead\<close>

lemma statuses_fit: "s \<in> set LEAD_STATUSES \<Longrightarrow> varchar 50 s"
  by (auto simp: LEAD_STATUSES_def varchar_def char_length_def)

lemma valid_status_Some: "valid_status v = Some s \<longleftrightarrow> v = JStr s \<and> s \<in> set LEAD_STATUSES"
  by (cases v) (auto simp: valid_status_def LEAD_STATUSES_def)

lemma valid_status_None: "valid_status v = None \<longleftrightarrow> \<not> array_includes LEAD_STATUSES v"
  by (cases v) (auto simp: valid_status_def LEAD_STATUSES_def)

lemma valid_status_guard: "valid_status v \<noteq> None \<longleftrightarrow> truthy v \<and> array_includes LEAD_STATUSES v"
  by (cases v) (auto simp: valid_status_def)

lemma valid_score_Some: "valid_score v = Some n \<longleftrightarrow> v = JNum n \<and> num_ge n 0 \<and> num_le n 100"
  by (cases v) (auto simp: valid_score_def)

lemma valid_score_guard: "valid_score v \<noteq> None \<longleftrightarrow> is_number v \<and> (\<exists>n. v = JNum n \<and> num_ge n 0 \<and> num_le n 100)"
  by (cases v) (auto simp: valid_score_def)

lemma valid_tags_Some: "valid_tags v = Some xs \<longleftrightarrow> v = JArr xs"
  by (cases v) (auto simp: valid_tags_def)

lemma valid_tags_None: "valid_tags v = None \<longleftrightarrow> \<not> isArray v"
  by (cases v) (auto simp: valid_tags_def)

lemma error_is_DbError: "(e :: error) = DbError"
  by (cases e) simp

lemma statuses_text: "s \<in> set LEAD_STATUSES \<Longrightarrow> text_ok s"
  by (auto simp: LEAD_STATUSES_def text_ok_def byte_def)

lemma bind_all_append:
  "bind_all enc (xs @ ys) =
     (case bind_all enc xs of
        Inl e \<Rightarrow> Inl e
      | Inr g \<Rightarrow> (case bind_all enc ys of Inl e \<Rightarrow> Inl e | Inr h \<Rightarrow> Inr (\<lambda>l. h (g l))))"
  by (induction xs) (auto split: sum.splits)

lemma bind_status:
  "bind_all enc (case valid_status (f_status f) of Some s \<Rightarrow> [SetStatus s] | None \<Rightarrow> []) =
     Inr (\<lambda>l. l\<lparr>l_status := (case valid_status (f_status f) of None \<Rightarrow> l_status l | Some s \<Rightarrow> s)\<rparr>)"
proof (cases "valid_status (f_status f)")
  case None
  then show ?thesis by simp
next
  case (Some s)
  then have "text_ok s \<and> varchar 50 s"
    by (simp add: valid_status_Some statuses_fit statuses_text)
  with Some show ?thesis by simp
qed

lemma bind_notes:
  "bind_all enc (if f_notes f \<noteq> JUndefined then [SetNotes (f_notes f)] else []) =
     (if notes_accepted enc f
      then Inr (\<lambda>l. l\<lparr>l_notes := (if f_notes f = JUndefined then l_notes l
                                     else pg_text enc (f_notes f))\<rparr>)
      else Inl DbError)"
  by (simp add: notes_accepted_def text_ok_opt_def)

lemma bind_score:
  "bind_all enc (case valid_score (f_score f) of Some n \<Rightarrow> [SetScore n] | None \<Rightarrow> []) =
     (if score_accepted f
      then Inr (\<lambda>l. l\<lparr>l_score := (case valid_score (f_score f) of
                                      None \<Rightarrow> l_score l
                                    | Some n \<Rightarrow> (case pg_int4 n of Inl e \<Rightarrow> l_score l
                                                | Inr k \<Rightarrow> Some k))\<rparr>)
      else Inl DbError)"
proof (cases "valid_score (f_score f)")
  case None
  then show ?thesis by (simp add: score_accepted_def)
next
  case (Some n)
  show ?thesis
  proof (cases "pg_int4 n")
    case (Inl e)
    with Some show ?thesis
      by (simp add: score_accepted_def error_is_DbError [of e] del: pg_int4.simps)
  next
    case (Inr k)
    with Some show ?thesis
      by (simp add: score_accepted_def del: pg_int4.simps)
  qed
qed

lemma bind_tags:
  "bind_all enc (case valid_tags (f_tags f) of Some xs \<Rightarrow> [SetTags xs] | None \<Rightarrow> []) =
     (if tags_accepted f
      then Inr (\<lambda>l. l\<lparr>l_tags := (case valid_tags (f_tags f) of None \<Rightarrow> l_tags l
                                    | Some xs \<Rightarrow> JArr xs)\<rparr>)
      else Inl DbError)"
  by (cases "valid_tags (f_tags f)") (simp_all add: tags_accepted_def del: jsonb_ok.simps)

lemma bind_updates:
  "bind_all enc (lead_updates f) = (if update_accepted enc f then Inr (written enc f) else Inl DbError)"
  unfolding lead_updates_def bind_all_append bind_status bind_notes bind_score bind_tags
  by (simp add: update_accepted_def written_def fun_eq_iff cong: option.case_cong sum.case_cong)

lemma written_keys: "l_id (written enc f l) = l_id l" "l_practice_id (written enc f l) = l_practice_id l"
  by (simp_all add: written_def)

lemma leads_join_map_leads:
  assumes "\<And>l. l_practice_id (u l) = l_practice_id l"
  shows "leads_join (d\<lparr>leads := map u (leads d)\<rparr>) = map (\<lambda>row. (u (fst row), snd row)) (leads_join d)"
proof -
  have inner: "concat (map (\<lambda>p. if p_id p = l_practice_id (u a) then [(u a, p)] else []) ps)
      = map (\<lambda>row. (u (fst row), snd row))
          (concat (map (\<lambda>p. if p_id p = l_practice_id a then [(a, p)] else []) ps))"
    for a and ps :: "practice list"
    by (induction ps) (simp_all add: assms)
  have "[(l, p). l \<leftarrow> map u ls, p \<leftarrow> practices d, p_id p = l_practice_id l] =
        map (\<lambda>row. (u (fst row), snd row))
          [(l, p). l \<leftarrow> ls, p \<leftarrow> practices d, p_id p = l_practice_id l]" for ls :: "lead list"
    by (induction ls) (simp_all add: inner)
  then show ?thesis by (simp add: leads_join_def)
qed

lemma getLeadById_map_leads:
  assumes id: "\<And>l. l_id (u l) = l_id l" and pr: "\<And>l. l_practice_id (u l) = l_practice_id l"
  shows "getLeadById (d\<lparr>leads := map u (leads d)\<rparr>) leadId =
         (case getLeadById d leadId of
            Inl e \<Rightarrow> Inl e
          | Inr None \<Rightarrow> Inr None
          | Inr (Some (l, p)) \<Rightarrow> Inr (Some (u l, p)))"
proof (cases "pg_int4 leadId")
  case (Inl e)
  then show ?thesis by (simp add: getLeadById_def)
next
  case (Inr k)
  define J where "J = filter (\<lambda>row. l_id (fst row) = k) (leads_join d)"
  have J': "filter (\<lambda>row. l_id (fst row) = k) (leads_join (d\<lparr>leads := map u (leads d)\<rparr>))
      = map (\<lambda>row. (u (fst row), snd row)) J"
    by (simp add: leads_join_map_leads [OF pr] J_def filter_map o_def id)
  show ?thesis
    unfolding getLeadById_def Inr sum.case J' J_def [symmetric]
    by (cases J) simp_all
qed

lemma getLeadById_found:
  assumes "getLeadById d leadId = Inr (Some (l, p))"
  shows "\<exists>k. pg_int4 leadId = Inr k \<and> l_id l = k \<and> l \<in> set (leads d)"
proof -
  from assms obtain k where k: "pg_int4 leadId = Inr k"
    by (auto simp: getLeadById_def split: sum.splits)
  define J where "J = filter (\<lambda>row. l_id (fst row) = k) (leads_join d)"
  from assms k obtain row rest where j: "J = row # rest" and row: "fst row = l"
    by (auto simp: getLeadById_def J_def [symmetric] split: list.splits)
  then have "row \<in> set J" by simp
  then have "l_id (fst row) = k \<and> row \<in> set (leads_join d)" by (simp add: J_def)
  then have "l_id l = k \<and> l \<in> set (leads d)"
    using row by (cases row) (auto simp: leads_join_set)
  with k show ?thesis by simp
qed

lemma update_leads_eq:
  "update_leads enc now d (lead_updates f) leadId =
     (if \<not> update_accepted enc f then (d, Inl DbError)
      else case pg_int4 leadId of
             Inl e \<Rightarrow> (d, Inl e)
           | Inr k \<Rightarrow> (d\<lparr>leads := map (update_row (written enc f) now k) (leads d)\<rparr>, Inr ()))"
  by (simp add: update_leads_def bind_updates split: sum.splits)

lemma update_row_keys:
  "l_id (update_row (written enc f) now k l) = l_id l"
  "l_practice_id (update_row (written enc f) now k l) = l_practice_id l"
  by (simp_all add: update_row_def written_keys)

lemma lead_updates_Nil:
  "lead_updates f = [] \<longleftrightarrow>
     valid_status (f_status f) = None \<and> f_notes f = JUndefined \<and>
     valid_score (f_score f) = None \<and> valid_tags (f_tags f) = None"
  by (auto simp: lead_updates_def split: option.splits)

lemma updateLead_found:
  assumes "getLeadById d leadId = Inr (Some (l, p))"
  shows "updateLead enc now d leadId f =
      (if lead_updates f = [] then (d, Inr (Some (l, p)))
       else if \<not> update_accepted enc f then (d, Inl DbError)
       else (d\<lparr>leads := map (update_row (written enc f) now (l_id l)) (leads d)\<rparr>,
             Inr (Some ((written enc f l)\<lparr>l_updated_at := now\<rparr>, p))))"
proof -
  from getLeadById_found [OF assms] have k: "pg_int4 leadId = Inr (l_id l)" by auto
  have after: "getLeadById (d\<lparr>leads := map (update_row (written enc f) now (l_id l)) (leads d)\<rparr>) leadId
      = Inr (Some (update_row (written enc f) now (l_id l) l, p))"
    by (simp add: getLeadById_map_leads update_row_keys assms)
  show ?thesis
    by (simp add: updateLead_def update_leads_eq k after assms update_row_def)
qed

lemma score_accepted_iff:
  "score_accepted f \<longleftrightarrow>
     \<not> (\<exists>r. f_score f = JNum (Finite r) \<and> 0 \<le> r \<and> r \<le> 100 \<and> of_int \<lfloor>r\<rfloor> \<noteq> r)"
proof (cases "valid_score (f_score f)")
  case None
  then have "\<not> (\<exists>n. f_score f = JNum n \<and> num_ge n 0 \<and> num_le n 100)"
    using valid_score_Some [of "f_score f"] by auto
  with None show ?thesis by (auto simp: score_accepted_def)
next
  case (Some n)
  then have n: "f_score f = JNum n" "num_ge n 0" "num_le n 100"
    by (simp_all add: valid_score_Some)
  show ?thesis
  proof (cases n)
    case (Finite r)
    with n have "0 \<le> r" "r \<le> 100" by simp_all
    then have "- 2147483648 \<le> \<lfloor>r\<rfloor>" "\<lfloor>r\<rfloor> \<le> 2147483647"
      by linarith+
    with Some Finite n show ?thesis
      by (simp add: score_accepted_def)
  qed (use n in simp_all)
qed

text \<open>
  C9. When no supplied field passes its test (the status is not in the enum, notes
  is undefined, the score is not a number or lies outside 0 to 100, tags is not an
  array), \<open>updateLead\<close> sends no UPDATE: the database, and with it the row of the
  lead and its updated_at, is the one it was called in, and the result is what
  \<open>getLeadById\<close> reads there.
\<close>

theorem updateLead_no_fields:
  assumes "\<not> array_includes LEAD_STATUSES (f_status f)"
    and "f_notes f = JUndefined"
    and "\<forall>n. f_score f = JNum n \<longrightarrow> \<not> (num_ge n 0 \<and> num_le n 100)"
    and "\<not> isArray (f_tags f)"
  shows "updateLead enc now d leadId f = (d, getLeadById d leadId)"
proof -
  from assms(3) have "valid_score (f_score f) = None"
    using valid_score_Some [of "f_score f"] by (cases "valid_score (f_score f)") auto
  with assms(1,2,4) have "lead_updates f = []"
    by (simp add: lead_updates_Nil valid_status_None valid_tags_None)
  then show ?thesis by (simp add: updateLead_def)
qed

theorem updateLead_no_fields_witness:
  "\<not> array_includes LEAD_STATUSES (JStr ''archived'') \<and>
   \<not> (num_ge (Finite 150) 0 \<and> num_le (Finite 150) 100) \<and> \<not> isArray JNull \<and>
   updateLead demo_enc 9 demo_db (Finite 1)
     \<lparr>f_status = JStr ''archived'', f_notes = JUndefined, f_score = JNum (Finite 150),
      f_tags = JNull\<rparr> = (demo_db, getLeadById demo_db (Finite 1))"
  using updateLead_no_fields
    [of "\<lparr>f_status = JStr ''archived'', f_notes = JUndefined, f_score = JNum (Finite 150),
          f_tags = JNull\<rparr>" demo_enc 9 demo_db "Finite 1"]
  by (simp add: LEAD_STATUSES_def)

section \<open>The score of an update\<close>

lemma written_score_kept:
  "valid_score (f_score f) = None \<Longrightarrow> l_score (update_row (written enc f) now k x) = l_score x"
  by (simp add: update_row_def written_def)

lemma updateLead_score_dropped:
  assumes found: "getLeadById d leadId = Inr (Some (l, p))"
    and sc: "f_score f = JNum n" and out: "\<not> (num_ge n 0 \<and> num_le n 100)"
  shows "map l_score (leads (fst (updateLead enc now d leadId f))) = map l_score (leads d)"
    and "notes_accepted enc f \<and> tags_accepted f \<Longrightarrow> \<exists>r. snd (updateLead enc now d leadId f) = Inr r"
proof -
  from sc out have v: "valid_score (f_score f) = None"
    by (simp add: valid_score_def)
  then have acc: "score_accepted f" by (simp add: score_accepted_def)
  show "map l_score (leads (fst (updateLead enc now d leadId f))) = map l_score (leads d)"
    by (simp add: updateLead_found [OF found] written_score_kept [OF v] o_def)
  show "\<exists>r. snd (updateLead enc now d leadId f) = Inr r"
    if "notes_accepted enc f \<and> tags_accepted f"
    using that acc by (simp add: updateLead_found [OF found] update_accepted_def)
qed

lemma updateLead_score_stored:
  assumes found: "getLeadById d leadId = Inr (Some (l, p))"
    and sc: "f_score f = JNum (Finite (of_int c))" and lo: "0 \<le> c" and hi: "c \<le> 100"
    and rest: "notes_accepted enc f" "tags_accepted f"
  shows "\<exists>d' l'. updateLead enc now d leadId f = (d', Inr (Some (l', p))) \<and>
           l_id l' = l_id l \<and> l_score l' = Some c \<and>
           (\<exists>x\<in>set (leads d'). l_id x = l_id l) \<and>
           (\<forall>x\<in>set (leads d'). l_id x = l_id l \<longrightarrow> l_score x = Some c)"
proof -
  from sc lo hi have v: "valid_score (f_score f) = Some (Finite (of_int c))"
    by (simp add: valid_score_def)
  from lo hi have pg: "pg_int4 (Finite (of_int c)) = Inr c" by simp
  from v pg rest have acc: "update_accepted enc f"
    by (simp add: update_accepted_def score_accepted_def del: pg_int4.simps)
  from v have ne: "lead_updates f \<noteq> []" by (simp add: lead_updates_Nil)
  have w: "l_score (written enc f x) = Some c" for x
    by (simp add: written_def v pg del: pg_int4.simps)
  from getLeadById_found [OF found] have l: "l \<in> set (leads d)" by auto
  have ex: "\<exists>x\<in>set (map (update_row (written enc f) now (l_id l)) (leads d)). l_id x = l_id l"
    using l by (auto simp: update_row_keys intro!: bexI [of _ l])
  show ?thesis
    using ex by (auto simp: updateLead_found [OF found] acc ne w written_keys update_row_def)
qed

text \<open>
  C4. For a lead that \<open>getLeadById\<close> finds, an update whose score is a number
  outside 0 to 100 (infinite and NaN included) leaves the score of every row as it
  was, whatever the other fields are: the field is dropped, not clamped; and the
  update is accepted if the server reads its notes and tags. An update whose score
  is exactly 0 or exactly 100, and whose notes and tags the server reads, is
  accepted: the row of the lead holds that score afterwards, and so does the lead
  that is returned.
\<close>

theorem updateLead_score:
  assumes "getLeadById d leadId = Inr (Some (l, p))"
  shows "(\<forall>n. f_score f = JNum n \<and> \<not> (num_ge n 0 \<and> num_le n 100) \<longrightarrow>
            map l_score (leads (fst (updateLead enc now d leadId f))) = map l_score (leads d) \<and>
            (notes_accepted enc f \<and> tags_accepted f \<longrightarrow>
               (\<exists>r. snd (updateLead enc now d leadId f) = Inr r))) \<and>
         (\<forall>c\<in>{0, 100}. f_score f = JNum (Finite (of_int c)) \<and>
                        notes_accepted enc f \<and> tags_accepted f \<longrightarrow>
            (\<exists>d' l'. updateLead enc now d leadId f = (d', Inr (Some (l', p))) \<and>
               l_id l' = l_id l \<and> l_score l' = Some c \<and>
               (\<exists>x\<in>set (leads d'). l_id x = l_id l) \<and>
               (\<forall>x\<in>set (leads d'). l_id x = l_id l \<longrightarrow> l_score x = Some c)))"
proof (intro conjI allI ballI impI)
  fix n assume h: "f_score f = JNum n \<and> \<not> (num_ge n 0 \<and> num_le n 100)"
  then show "map l_score (leads (fst (updateLead enc now d leadId f))) = map l_score (leads d)"
    using updateLead_score_dropped(1) [OF assms] by blast
  assume "notes_accepted enc f \<and> tags_accepted f"
  with h show "\<exists>r. snd (updateLead enc now d leadId f) = Inr r"
    using updateLead_score_dropped(2) [OF assms] by blast
next
  fix c :: int
  assume c: "c \<in> {0, 100}"
    and sc: "f_score f = JNum (Finite (of_int c)) \<and> notes_accepted enc f \<and> tags_accepted f"
  from c have "0 \<le> c" "c \<le> 100" by auto
  with sc show "\<exists>d' l'. updateLead enc now d leadId f = (d', Inr (Some (l', p))) \<and>
               l_id l' = l_id l \<and> l_score l' = Some c \<and>
               (\<exists>x\<in>set (leads d'). l_id x = l_id l) \<and>
               (\<forall>x\<in>set (leads d'). l_id x = l_id l \<longrightarrow> l_score x = Some c)"
    using updateLead_score_stored [OF assms] by blast
qed

lemma demo_found:
  "getLeadById demo_db (Finite 1) = Inr (Some (demo_lead, Some demo_practice))"
  by code_simp

theorem updateLead_score_witness:
  "getLeadById demo_db (Finite 1) = Inr (Some (demo_lead, Some demo_practice)) \<and>
   \<not> (num_ge (Finite 150) 0 \<and> num_le (Finite 150) 100) \<and>
   notes_accepted demo_enc
     \<lparr>f_status = JUndefined, f_notes = JStr ''call back'', f_score = JNum (Finite 150),
      f_tags = JArr [JStr ''vip'']\<rparr> \<and>
   tags_accepted
     \<lparr>f_status = JUndefined, f_notes = JStr ''call back'', f_score = JNum (Finite 150),
      f_tags = JArr [JStr ''vip'']\<rparr> \<and>
   map l_score (leads (fst (updateLead demo_enc 9 demo_db (Finite 1)
              \<lparr>f_status = JUndefined, f_notes = JStr ''call back'', f_score = JNum (Finite 150),
               f_tags = JArr [JStr ''vip'']\<rparr>))) = map l_score (leads demo_db) \<and>
   (\<exists>r. snd (updateLead demo_enc 9 demo_db (Finite 1)
              \<lparr>f_status = JUndefined, f_notes = JStr ''call back'', f_score = JNum (Finite 150),
               f_tags = JArr [JStr ''vip'']\<rparr>) = Inr r) \<and>
   (\<exists>d' l'. updateLead demo_enc 9 demo_db (Finite 1)
              \<lparr>f_status = JUndefined, f_notes = JStr ''call back'', f_score = JNum (Finite 100),
               f_tags = JArr [JStr ''vip'']\<rparr> = (d', Inr (Some (l', Some demo_practice))) \<and>
            l_score l' = Some 100 \<and>
            (\<forall>x\<in>set (leads d'). l_id x = l_id demo_lead \<longrightarrow> l_score x = Some 100))"
proof -
  let ?f = "\<lambda>n. \<lparr>f_status = JUndefined, f_notes = JStr ''call back'', f_score = JNum (Finite n),
               f_tags = JArr [JStr ''vip'']\<rparr>"
  note t = updateLead_score [OF demo_found, of _ demo_enc 9]
  have na: "notes_accepted demo_enc (?f n)" for n
    by (simp add: notes_accepted_def text_ok_opt_def text_ok_def byte_def)
  have ta: "tags_accepted (?f n)" for n
    by (simp add: tags_accepted_def valid_tags_def text_ok_def byte_def)
  have a: "map l_score (leads (fst (updateLead demo_enc 9 demo_db (Finite 1) (?f 150))))
             = map l_score (leads demo_db) \<and>
           (\<exists>r. snd (updateLead demo_enc 9 demo_db (Finite 1) (?f 150)) = Inr r)"
    using t [of "?f 150"] na [of 150] ta [of 150] by simp
  have b: "\<exists>d' l'. updateLead demo_enc 9 demo_db (Finite 1) (?f 100)
               = (d', Inr (Some (l', Some demo_practice))) \<and>
            l_score l' = Some 100 \<and>
            (\<forall>x\<in>set (leads d'). l_id x = l_id demo_lead \<longrightarrow> l_score x = Some 100)"
    using t [of "?f 100"] na [of 100] ta [of 100] by auto
  from a b demo_found na [of 150] ta [of 150] show ?thesis by simp
qed

section \<open>PATCH: the status change and its activity\<close>

lemma status_title_fits: "s \<in> set LEAD_STATUSES \<Longrightarrow> varchar 255 (status_title s)"
  by (auto simp: LEAD_STATUSES_def status_title_def varchar_def char_length_def)

lemma kind_fits: "varchar 50 ''status_change''"
  by (simp add: varchar_def char_length_def)

lemma kind_text: "text_ok ''status_change''"
  by (simp add: text_ok_def byte_def)

lemma status_title_text: "s \<in> set LEAD_STATUSES \<Longrightarrow> text_ok (status_title s)"
  by (auto simp: LEAD_STATUSES_def status_title_def text_ok_def byte_def continuation_def)

lemma status_title_sublist: "sublist s (status_title s)"
  unfolding status_title_def by (intro sublist_appendI suffix_imp_sublist) (simp add: suffix_def)

lemma addActivity_ok:
  assumes wf: "wf_db d" and k: "pg_int4 leadId = Inr k" and fk: "k \<in> set (map l_id (leads d))"
    and w1: "varchar 50 kind" and w2: "varchar 255 title"
    and tx: "text_ok kind" "text_ok title" "text_ok body" "jsonb_ok md"
  shows "addActivity now d leadId kind title body md =
     (d\<lparr>activities_id_seq := activities_id_seq d + 1,
        activities := activities d @
          [\<lparr>a_id = activities_id_seq d + 1, a_lead_id = k, a_kind = kind, a_title = Some title,
            a_body = Some body, a_extra = md, a_created_at = now\<rparr>]\<rparr>,
      Inr \<lparr>a_id = activities_id_seq d + 1, a_lead_id = k, a_kind = kind, a_title = Some title,
            a_body = Some body, a_extra = md, a_created_at = now\<rparr>)"
proof -
  from wf have "\<forall>a\<in>set (activities d). a_id a \<le> activities_id_seq d"
    by (simp add: wf_db_def list_all_iff)
  then have fresh: "activities_id_seq d + 1 \<notin> set (map a_id (activities d))"
    by force
  show ?thesis
    using fresh fk by (simp add: addActivity_def k w1 w2 tx Let_def)
qed

lemma wf_db_addActivity:
  assumes wf: "wf_db d" and fk: "k \<in> set (map l_id (leads d))"
  shows "wf_db (d\<lparr>activities_id_seq := activities_id_seq d + 1,
        activities := activities d @
          [\<lparr>a_id = activities_id_seq d + 1, a_lead_id = k, a_kind = kind, a_title = title,
            a_body = body, a_extra = md, a_created_at = now\<rparr>]\<rparr>)"
proof -
  from wf have le: "\<forall>a\<in>set (activities d). a_id a \<le> activities_id_seq d"
    by (simp add: wf_db_def list_all_iff)
  then have fresh: "activities_id_seq d + 1 \<notin> a_id ` set (activities d)"
    by force
  from le have le': "\<forall>a\<in>set (activities d). a_id a \<le> activities_id_seq d + 1"
    by force
  from wf fresh le' fk show ?thesis
    by (simp add: wf_db_def list_all_iff)
qed

lemma wf_db_map_leads:
  assumes wf: "wf_db d" and id: "\<And>l. l_id (u l) = l_id l"
    and pr: "\<And>l. l_practice_id (u l) = l_practice_id l"
  shows "wf_db (d\<lparr>leads := map u (leads d)\<rparr>)"
proof -
  have m: "map l_id (map u (leads d)) = map l_id (leads d)"
    "map l_practice_id (map u (leads d)) = map l_practice_id (leads d)"
    by (simp_all add: id pr)
  have s: "l_id ` u ` set (leads d) = l_id ` set (leads d)"
    by (simp add: image_image id)
  from wf show ?thesis
    unfolding wf_db_def by (simp add: m s list_all_iff id pr del: map_map)
qed

lemma leads_join_activities:
  "leads_join (d\<lparr>activities_id_seq := i, activities := as\<rparr>) = leads_join d"
  by (simp add: leads_join_def)

lemma getLeadById_activities:
  "getLeadById (d\<lparr>activities_id_seq := i, activities := as\<rparr>) leadId = getLeadById d leadId"
  by (simp add: getLeadById_def leads_join_activities cong: sum.case_cong)

lemma patch_update_found:
  assumes "getLeadById d leadId = Inr (Some (l, p))"
  shows "patch_update enc now d leadId data =
      (if lead_updates data = [] then (d, Json (lead_json_of l))
       else if \<not> update_accepted enc data then (d, ServerError)
       else (d\<lparr>leads := map (update_row (written enc data) now (l_id l)) (leads d)\<rparr>,
             Json (lead_json_of ((written enc data l)\<lparr>l_updated_at := now\<rparr>))))"
proof -
  have e: "\<lparr>f_status = f_status data, f_notes = f_notes data, f_score = f_score data,
            f_tags = f_tags data\<rparr> = data"
    by (cases data) simp
  show ?thesis
    unfolding patch_update_def e by (simp add: updateLead_found [OF assms])
qed

lemma written_status:
  "valid_status (f_status f) = Some s \<Longrightarrow> l_status (update_row (written enc f) now k x) = (if l_id x = k then s else l_status x)"
  "valid_status (f_status f) = None \<Longrightarrow> l_status (update_row (written enc f) now k x) = l_status x"
  by (simp_all add: update_row_def written_def)

lemma patch_lead_logged:
  assumes wf: "wf_db d"
    and found: "getLeadById d (js_number (parseInt10 idp)) = Inr (Some (l, p))"
    and st: "valid_status (f_status data) = Some s"
  shows "\<exists>a d1 d2 r. patch_lead enc t1 t2 d idp data = ([d1, d2], r) \<and>
           activities d1 = activities d @ [a] \<and> leads d1 = leads d \<and>
           a_kind a = ''status_change'' \<and> a_lead_id a = l_id l \<and>
           a_title a = Some (status_title s) \<and>
           activities d2 = activities d1 \<and> wf_db d2 \<and>
           (\<exists>l'. getLeadById d2 (js_number (parseInt10 idp)) = Inr (Some (l', p)) \<and> l_id l' = l_id l) \<and>
           (if update_accepted enc data
            then r = Json (lead_json_of ((written enc data l)\<lparr>l_updated_at := t2\<rparr>)) \<and>
                 leads d2 = map (update_row (written enc data) t2 (l_id l)) (leads d)
            else r = ServerError \<and> d2 = d1)"
proof -
  let ?id = "js_number (parseInt10 idp)"
  let ?a = "\<lparr>a_id = activities_id_seq d + 1, a_lead_id = l_id l, a_kind = ''status_change'',
             a_title = Some (status_title s), a_body = Some [], a_extra = JObj [],
             a_created_at = t1\<rparr>"
  let ?d1 = "d\<lparr>activities_id_seq := activities_id_seq d + 1, activities := activities d @ [?a]\<rparr>"
  let ?u = "update_row (written enc data) t2 (l_id l)"
  let ?d2 = "?d1\<lparr>leads := map ?u (leads ?d1)\<rparr>"
  from getLeadById_found [OF found] have k: "pg_int4 ?id = Inr (l_id l)" and l: "l \<in> set (leads d)"
    by auto
  from l have fk: "l_id l \<in> set (map l_id (leads d))" by simp
  from st have en: "s \<in> set LEAD_STATUSES" by (simp add: valid_status_Some)
  from en have tf: "varchar 255 (status_title s)" by (rule status_title_fits)
  from en have tt: "text_ok (status_title s)" by (rule status_title_text)
  have te: "text_ok []" "jsonb_ok (JObj [])" by (simp_all add: text_ok_def)
  have add: "addActivity t1 d ?id ''status_change'' (status_title s) [] (JObj []) = (?d1, Inr ?a)"
    using wf k fk kind_fits tf kind_text tt te by (rule addActivity_ok)
  have wf1: "wf_db ?d1"
    using wf fk by (rule wf_db_addActivity)
  have found1: "getLeadById ?d1 ?id = Inr (Some (l, p))"
    by (simp only: getLeadById_activities found)
  from st have ne: "lead_updates data \<noteq> []" by (simp add: lead_updates_Nil)
  have upd: "patch_update enc t2 ?d1 ?id data =
      (if \<not> update_accepted enc data then (?d1, ServerError)
       else (?d2, Json (lead_json_of ((written enc data l)\<lparr>l_updated_at := t2\<rparr>))))"
    by (simp only: patch_update_found [OF found1] ne if_False)
  have wf2: "wf_db ?d2"
    using wf1 by (rule wf_db_map_leads) (simp_all add: update_row_keys)
  have "getLeadById ?d2 ?id =
      (case getLeadById ?d1 ?id of
         Inl e \<Rightarrow> Inl e
       | Inr None \<Rightarrow> Inr None
       | Inr (Some (l, p)) \<Rightarrow> Inr (Some (?u l, p)))"
    by (rule getLeadById_map_leads) (simp_all add: update_row_keys)
  then have found2: "getLeadById ?d2 ?id = Inr (Some (?u l, p))"
    by (simp only: found1 sum.case option.case prod.case)
  show ?thesis
  proof (cases "update_accepted enc data")
    case True
    have "patch_lead enc t1 t2 d idp data =
        ([?d1, ?d2], Json (lead_json_of ((written enc data l)\<lparr>l_updated_at := t2\<rparr>)))"
      by (simp add: patch_lead_def found st add upd True)
    moreover have "l_id (?u l) = l_id l" by (simp add: update_row_keys)
    ultimately show ?thesis
      using wf2 found2 True by (intro exI [of _ ?a] exI [of _ ?d1] exI [of _ ?d2] exI) auto
  next
    case False
    have "patch_lead enc t1 t2 d idp data = ([?d1, ?d1], ServerError)"
      by (simp add: patch_lead_def found st add upd False)
    then show ?thesis
      using wf1 found1 False by (intro exI [of _ ?a] exI [of _ ?d1] exI [of _ ?d1] exI) auto
  qed
qed

lemma demo_wf: "wf_db demo_db"
  by code_simp

lemma demo_found_route:
  "getLeadById demo_db (js_number (parseInt10 ''1'')) = Inr (Some (demo_lead, Some demo_practice))"
  by code_simp

text \<open>
  C2. For a lead that the handler finds and a status of the enum, in a database
  that satisfies the constraints of the schema, the handler makes two calls that
  write. After the first the activities are those before the request followed by
  exactly one new activity, of kind \<open>status_change\<close>, owned by the lead, whose title
  ends with the new status, and the leads are still as before the request. The
  second call adds no activity. If the server accepts the update (the score that
  passes the test of \<open>updateLead\<close> is an integer, the notes are text and the tags
  JSON that it stores), the row of the lead holds the new status after it and the
  response echoes it; if not, nothing more is written and the handler answers with
  the error page.
\<close>

theorem patch_lead_status_change:
  assumes wf: "wf_db d"
    and found: "getLeadById d (js_number (parseInt10 idp)) = Inr (Some (l, p))"
    and st: "f_status data = JStr s" and en: "s \<in> set LEAD_STATUSES"
  shows "\<exists>a d1 d2 r. patch_lead enc t1 t2 d idp data = ([d1, d2], r) \<and>
           activities d1 = activities d @ [a] \<and> leads d1 = leads d \<and>
           a_kind a = ''status_change'' \<and> a_lead_id a = l_id l \<and>
           a_title a = Some (status_title s) \<and> sublist s (status_title s) \<and>
           activities d2 = activities d1 \<and>
           (if update_accepted enc data
            then (\<exists>j. r = Json j \<and> j_status j = s) \<and>
                 (\<exists>x\<in>set (leads d2). l_id x = l_id l) \<and>
                 (\<forall>x\<in>set (leads d2). l_id x = l_id l \<longrightarrow> l_status x = s)
            else r = ServerError \<and> d2 = d1)"
proof -
  from st en have v: "valid_status (f_status data) = Some s"
    by (simp add: valid_status_Some)
  from patch_lead_logged [OF wf found v, of enc t1 t2]
  obtain a d1 d2 r where res: "patch_lead enc t1 t2 d idp data = ([d1, d2], r)"
    and a: "activities d1 = activities d @ [a]" "leads d1 = leads d"
      "a_kind a = ''status_change''" "a_lead_id a = l_id l" "a_title a = Some (status_title s)"
      "activities d2 = activities d1"
    and acc: "if update_accepted enc data
            then r = Json (lead_json_of ((written enc data l)\<lparr>l_updated_at := t2\<rparr>)) \<and>
                 leads d2 = map (update_row (written enc data) t2 (l_id l)) (leads d)
            else r = ServerError \<and> d2 = d1"
    by blast
  from getLeadById_found [OF found] have l: "l \<in> set (leads d)" by auto
  have stored: "(\<exists>j. r = Json j \<and> j_status j = s) \<and>
                 (\<exists>x\<in>set (leads d2). l_id x = l_id l) \<and>
                 (\<forall>x\<in>set (leads d2). l_id x = l_id l \<longrightarrow> l_status x = s)"
    if "update_accepted enc data"
  proof -
    from that acc have r: "r = Json (lead_json_of ((written enc data l)\<lparr>l_updated_at := t2\<rparr>))"
      and d2: "leads d2 = map (update_row (written enc data) t2 (l_id l)) (leads d)"
      by simp_all
    have "j_status (lead_json_of ((written enc data l)\<lparr>l_updated_at := t2\<rparr>)) = s"
      by (simp add: lead_json_of_def written_def v)
    moreover have "\<exists>x\<in>set (leads d2). l_id x = l_id l"
      unfolding d2 using l by (auto simp: update_row_keys intro!: bexI [of _ l])
    moreover have "\<forall>x\<in>set (leads d2). l_id x = l_id l \<longrightarrow> l_status x = s"
      unfolding d2 by (auto simp: written_status(1) [OF v] update_row_keys)
    ultimately show ?thesis using r by simp
  qed
  show ?thesis
  proof (cases "update_accepted enc data")
    case True
    with res a stored status_title_sublist [of s] show ?thesis
      by (intro exI [of _ a] exI [of _ d1] exI [of _ d2] exI [of _ r]) simp
  next
    case False
    with res a acc status_title_sublist [of s] show ?thesis
      by (intro exI [of _ a] exI [of _ d1] exI [of _ d2] exI [of _ r]) simp
  qed
qed

theorem patch_lead_status_change_witness:
  "wf_db demo_db \<and>
   getLeadById demo_db (js_number (parseInt10 ''1'')) = Inr (Some (demo_lead, Some demo_practice)) \<and>
   ''lost'' \<in> set LEAD_STATUSES \<and>
   (\<exists>a d1 d2 r. patch_lead demo_enc 5 6 demo_db ''1''
        \<lparr>f_status = JStr ''lost'', f_notes = JUndefined, f_score = JUndefined,
         f_tags = JUndefined\<rparr> = ([d1, d2], r) \<and>
      activities d1 = activities demo_db @ [a] \<and> leads d1 = leads demo_db \<and>
      a_kind a = ''status_change'' \<and> a_lead_id a = l_id demo_lead \<and>
      a_title a = Some (status_title ''lost'') \<and> activities d2 = activities d1 \<and>
      (\<exists>j. r = Json j \<and> j_status j = ''lost'') \<and>
      (\<forall>x\<in>set (leads d2). l_id x = l_id demo_lead \<longrightarrow> l_status x = ''lost''))"
proof -
  have en: "''lost'' \<in> set LEAD_STATUSES" by (simp add: LEAD_STATUSES_def)
  have acc: "update_accepted demo_enc \<lparr>f_status = JStr ''lost'', f_notes = JUndefined,
         f_score = JUndefined, f_tags = JUndefined\<rparr>"
    by (simp add: update_accepted_def score_accepted_def notes_accepted_def tags_accepted_def
        valid_score_def valid_tags_def text_ok_opt_def)
  from patch_lead_status_change [OF demo_wf demo_found_route _ en,
      of "\<lparr>f_status = JStr ''lost'', f_notes = JUndefined, f_score = JUndefined,
         f_tags = JUndefined\<rparr>" demo_enc 5 6]
  have "\<exists>a d1 d2 r. patch_lead demo_enc 5 6 demo_db ''1''
        \<lparr>f_status = JStr ''lost'', f_notes = JUndefined, f_score = JUndefined,
         f_tags = JUndefined\<rparr> = ([d1, d2], r) \<and>
      activities d1 = activities demo_db @ [a] \<and> leads d1 = leads demo_db \<and>
      a_kind a = ''status_change'' \<and> a_lead_id a = l_id demo_lead \<and>
      a_title a = Some (status_title ''lost'') \<and> activities d2 = activities d1 \<and>
      (\<exists>j. r = Json j \<and> j_status j = ''lost'') \<and>
      (\<forall>x\<in>set (leads d2). l_id x = l_id demo_lead \<longrightarrow> l_status x = ''lost'')"
    using acc by (simp del: ex_simps) blast
  with demo_wf demo_found_route en show ?thesis by simp
qed

text \<open>
  C10. The handler does not compare the supplied status with the stored one: the same
  request with a status of the enum, sent any number of times, appends one
  \<open>status_change\<close> activity for the lead each time, whatever status the lead has,
  the supplied one included.
\<close>

theorem patch_repeat_appends:
  assumes wf: "wf_db d"
    and found: "getLeadById d (js_number (parseInt10 idp)) = Inr (Some (l, p))"
    and st: "f_status data = JStr s" and en: "s \<in> set LEAD_STATUSES"
  shows "\<exists>acts. activities (patch_repeat enc d idp data ts) = activities d @ acts \<and>
           length acts = length ts \<and>
           (\<forall>a\<in>set acts. a_kind a = ''status_change'' \<and> a_lead_id a = l_id l \<and>
                          a_title a = Some (status_title s))"
  using wf found
proof (induction ts arbitrary: d l)
  case Nil
  then show ?case by simp
next
  case (Cons t ts)
  from st en have v: "valid_status (f_status data) = Some s"
    by (simp add: valid_status_Some)
  from patch_lead_logged [OF Cons.prems v, of enc "fst t" "snd t"]
  obtain a d1 d2 r l' where res: "patch_lead enc (fst t) (snd t) d idp data = ([d1, d2], r)"
    and a: "activities d1 = activities d @ [a]"
      "a_kind a = ''status_change''" "a_lead_id a = l_id l" "a_title a = Some (status_title s)"
      "activities d2 = activities d1"
    and wf2: "wf_db d2"
    and found2: "getLeadById d2 (js_number (parseInt10 idp)) = Inr (Some (l', p))"
    and id: "l_id l' = l_id l"
    by blast
  from res have fin: "final_db d (patch_lead enc (fst t) (snd t) d idp data) = d2"
    by (simp add: final_db_def)
  from Cons.IH [OF wf2 found2] obtain acts where
    acts: "activities (patch_repeat enc d2 idp data ts) = activities d2 @ acts"
      "length acts = length ts"
      "\<forall>a\<in>set acts. a_kind a = ''status_change'' \<and> a_lead_id a = l_id l' \<and>
                          a_title a = Some (status_title s)"
    by blast
  show ?case
    using acts a id by (intro exI [of _ "a # acts"]) (simp add: fin)
qed

theorem patch_repeat_appends_witness:
  "wf_db demo_db \<and>
   getLeadById demo_db (js_number (parseInt10 ''1'')) = Inr (Some (demo_lead, Some demo_practice)) \<and>
   ''new'' \<in> set LEAD_STATUSES \<and> l_status demo_lead = ''new'' \<and>
   (\<exists>acts. activities (patch_repeat demo_enc demo_db ''1''
        \<lparr>f_status = JStr ''new'', f_notes = JUndefined, f_score = JUndefined,
         f_tags = JUndefined\<rparr> [(5, 6), (7, 8)]) = activities demo_db @ acts \<and>
      length acts = 2 \<and>
      (\<forall>a\<in>set acts. a_kind a = ''status_change'' \<and> a_lead_id a = l_id demo_lead \<and>
                     a_title a = Some (status_title ''new'')))"
proof -
  have en: "''new'' \<in> set LEAD_STATUSES" by (simp add: LEAD_STATUSES_def)
  have cur: "l_status demo_lead = ''new''" by code_simp
  from patch_repeat_appends [OF demo_wf demo_found_route _ en,
      of "\<lparr>f_status = JStr ''new'', f_notes = JUndefined, f_score = JUndefined,
         f_tags = JUndefined\<rparr>" demo_enc "[(5, 6), (7, 8)]"]
  have "\<exists>acts. activities (patch_repeat demo_enc demo_db ''1''
        \<lparr>f_status = JStr ''new'', f_notes = JUndefined, f_score = JUndefined,
         f_tags = JUndefined\<rparr> [(5, 6), (7, 8)]) = activities demo_db @ acts \<and>
      length acts = 2 \<and>
      (\<forall>a\<in>set acts. a_kind a = ''status_change'' \<and> a_lead_id a = l_id demo_lead \<and>
                     a_title a = Some (status_title ''new''))"
    by (simp add: eval_nat_numeral del: patch_repeat.simps)
  with demo_wf demo_found_route en cur show ?thesis by simp
qed

section \<open>PATCH: a status outside the enum\<close>

lemma written_others:
  "f_notes f \<noteq> JUndefined \<Longrightarrow> l_notes (update_row (written enc f) now k x) = (if l_id x = k then pg_text enc (f_notes f) else l_notes x)"
  "f_tags f = JArr xs \<Longrightarrow> l_tags (update_row (written enc f) now k x) = (if l_id x = k then JArr xs else l_tags x)"
  "f_score f = JNum (Finite (of_int c)) \<Longrightarrow> 0 \<le> c \<Longrightarrow> c \<le> 100 \<Longrightarrow>
     l_score (update_row (written enc f) now k x) = (if l_id x = k then Some c else l_score x)"
  by (simp_all add: update_row_def written_def valid_tags_def valid_score_def)

lemma patch_lead_invalid_status:
  assumes found: "getLeadById d (js_number (parseInt10 idp)) = Inr (Some (l, p))"
    and inv: "\<not> array_includes LEAD_STATUSES (f_status data)"
  shows "\<exists>d2 r. patch_lead enc t1 t2 d idp data = ([d2], r) \<and>
           activities d2 = activities d \<and> map l_status (leads d2) = map l_status (leads d) \<and>
           (if update_accepted enc data
            then (\<exists>j. r = Json j) \<and>
                 (\<forall>x\<in>set (leads d2). l_id x = l_id l \<longrightarrow>
                    (f_notes data \<noteq> JUndefined \<longrightarrow> l_notes x = pg_text enc (f_notes data)) \<and>
                    (\<forall>xs. f_tags data = JArr xs \<longrightarrow> l_tags x = JArr xs) \<and>
                    (\<forall>c. f_score data = JNum (Finite (of_int c)) \<and> 0 \<le> c \<and> c \<le> 100
                           \<longrightarrow> l_score x = Some c))
            else r = ServerError \<and> d2 = d)"
proof -
  let ?id = "js_number (parseInt10 idp)"
  let ?u = "update_row (written enc data) t2 (l_id l)"
  from inv have v: "valid_status (f_status data) = None"
    by (simp add: valid_status_None)
  have res: "patch_lead enc t1 t2 d idp data =
      (case patch_update enc t2 d ?id data of (d2, r) \<Rightarrow> ([d2], r))"
    by (simp add: patch_lead_def found v)
  note upd = patch_update_found [OF found, of enc t2 data]
  show ?thesis
  proof (cases "update_accepted enc data")
    case False
    have "lead_updates data \<noteq> []"
    proof
      assume "lead_updates data = []"
      then have "f_notes data = JUndefined" "valid_tags (f_tags data) = None"
        "valid_score (f_score data) = None"
        by (simp_all add: lead_updates_Nil)
      then have "update_accepted enc data"
        by (simp add: update_accepted_def score_accepted_def notes_accepted_def
            tags_accepted_def text_ok_opt_def)
      with False show False by simp
    qed
    with False res upd show ?thesis by simp
  next
    case True
    show ?thesis
    proof (cases "lead_updates data = []")
      case True
      then have none: "f_notes data = JUndefined" "valid_tags (f_tags data) = None"
        "valid_score (f_score data) = None"
        by (simp_all add: lead_updates_Nil)
      from none(2) have "\<forall>xs. f_tags data \<noteq> JArr xs"
        by (auto simp: valid_tags_def)
      moreover from none(3) have "\<forall>c. \<not> (f_score data = JNum (Finite (of_int c)) \<and> 0 \<le> c \<and> c \<le> 100)"
        by (auto simp: valid_score_def)
      ultimately show ?thesis
        using True \<open>update_accepted enc data\<close> res upd none(1) by auto
    next
      case False
      have r: "patch_lead enc t1 t2 d idp data =
          ([d\<lparr>leads := map ?u (leads d)\<rparr>],
           Json (lead_json_of ((written enc data l)\<lparr>l_updated_at := t2\<rparr>)))"
        using False True res upd by simp
      have st: "map l_status (map ?u (leads d)) = map l_status (leads d)"
        by (simp add: written_status(2) [OF v])
      have fields: "(f_notes data \<noteq> JUndefined \<longrightarrow> l_notes x = pg_text enc (f_notes data)) \<and>
                    (\<forall>xs. f_tags data = JArr xs \<longrightarrow> l_tags x = JArr xs) \<and>
                    (\<forall>c. f_score data = JNum (Finite (of_int c)) \<and> 0 \<le> c \<and> c \<le> 100
                           \<longrightarrow> l_score x = Some c)"
        if "x \<in> set (map ?u (leads d))" and "l_id x = l_id l" for x
      proof -
        from that obtain y where y: "y \<in> set (leads d)" "x = ?u y" by auto
        with that(2) have "l_id y = l_id l" by (simp add: update_row_keys)
        with y(2) show ?thesis by (simp add: written_others)
      qed
      show ?thesis
        using r st fields True
        by (intro exI [of _ "d\<lparr>leads := map ?u (leads d)\<rparr>"]
            exI [of _ "Json (lead_json_of ((written enc data l)\<lparr>l_updated_at := t2\<rparr>))"]) simp
    qed
  qed
qed

text \<open>
  C3. A request on the first lead of the example with the status \<open>archived\<close>, which is
  not in the enum, the notes \<open>call back\<close> and the score 0.5. The score passes the test
  of \<open>updateLead\<close>, the server rejects it for the INTEGER column, and with it the
  whole UPDATE: the handler answers with the error page and the notes, a valid
  field of the request, are not applied. (Lemma \<open>patch_lead_invalid_status\<close>: the
  claim holds for every request whose update the server accepts.)
\<close>

theorem patch_lead_fractional_score:
  "getLeadById demo_db (js_number (parseInt10 ''1'')) = Inr (Some (demo_lead, Some demo_practice)) \<and>
   \<not> array_includes LEAD_STATUSES (JStr ''archived'') \<and>
   l_notes demo_lead = None \<and>
   patch_lead demo_enc 5 6 demo_db ''1''
     \<lparr>f_status = JStr ''archived'', f_notes = JStr ''call back'', f_score = JNum (Finite (1 / 2)),
      f_tags = JUndefined\<rparr> = ([demo_db], ServerError)"
  by code_simp

section \<open>Repeated ingestion\<close>

lemma fits_proposed:
  "practice_fits (proposed now i u r) = practice_fits (proposed 0 0 u r)"
  "practice_text_ok (proposed now i u r) = practice_text_ok (proposed 0 0 u r)"
  by (simp_all add: practice_fits_def practice_text_ok_def proposed_def)

lemma wf_db_practices_map:
  assumes wf: "wf_db d" and id: "\<And>p. p_id (g p) = p_id p" and url: "\<And>p. p_url (g p) = p_url p"
    and i: "practices_id_seq d \<le> i"
  shows "wf_db (d\<lparr>practices_id_seq := i, practices := map g (practices d)\<rparr>)"
proof -
  have m: "map p_id (map g (practices d)) = map p_id (practices d)"
    "map p_url (map g (practices d)) = map p_url (practices d)"
    by (simp_all add: id url)
  have s: "p_id ` g ` set (practices d) = p_id ` set (practices d)"
    by (simp add: image_image id)
  from wf i show ?thesis
    unfolding wf_db_def by (auto simp: m s list_all_iff id simp del: map_map)
qed

lemma wf_db_practices_append:
  assumes wf: "wf_db d" and id: "p_id row = practices_id_seq d + 1"
    and url: "p_url row \<notin> set (map p_url (practices d))"
  shows "wf_db (d\<lparr>practices_id_seq := practices_id_seq d + 1, practices := practices d @ [row]\<rparr>)"
proof -
  from wf have le: "\<forall>p\<in>set (practices d). p_id p \<le> practices_id_seq d"
    by (simp add: wf_db_def list_all_iff)
  then have fresh: "practices_id_seq d + 1 \<notin> p_id ` set (practices d)"
    by force
  from le have le': "\<forall>p\<in>set (practices d). p_id p \<le> practices_id_seq d + 1"
    by force
  from wf fresh le' url id show ?thesis
    by (auto simp: wf_db_def list_all_iff)
qed

lemma wf_db_seq_only:
  assumes wf: "wf_db d"
  shows "wf_db (d\<lparr>practices_id_seq := practices_id_seq d + 1\<rparr>)"
proof -
  from wf have le: "\<forall>p\<in>set (practices d). p_id p \<le> practices_id_seq d"
    by (simp add: wf_db_def list_all_iff)
  then have le': "\<forall>p\<in>set (practices d). p_id p \<le> practices_id_seq d + 1"
    by force
  from wf le' show ?thesis
    by (simp add: wf_db_def list_all_iff)
qed

lemma wf_db_leads_append:
  assumes wf: "wf_db d" and id: "l_id row = leads_id_seq d + 1"
    and fk: "l_practice_id row \<in> set (map p_id (practices d))"
    and un: "l_practice_id row \<notin> set (map l_practice_id (leads d))"
  shows "wf_db (d\<lparr>leads_id_seq := leads_id_seq d + 1, leads := leads d @ [row]\<rparr>)"
proof -
  from wf have le: "\<forall>l\<in>set (leads d). l_id l \<le> leads_id_seq d"
    by (simp add: wf_db_def list_all_iff)
  then have fresh: "leads_id_seq d + 1 \<notin> l_id ` set (leads d)"
    by force
  from le have le': "\<forall>l\<in>set (leads d). l_id l \<le> leads_id_seq d + 1"
    by force
  from wf fresh le' fk un id show ?thesis
    by (auto simp: wf_db_def list_all_iff)
qed

lemma overwrite_keys: "p_id (overwrite new old) = p_id old" "p_url (overwrite new old) = p_url old"
  by (simp_all add: overwrite_def)

lemma upsertPractice_ok:
  assumes wf: "wf_db d" and u: "r_url r = Some u" and fits: "record_accepted r"
  shows "\<exists>d1 i. upsertPractice now d r = (d1, Inr i) \<and> wf_db d1 \<and> leads d1 = leads d \<and>
           set (map (\<lambda>p. (p_id p, p_url p)) (practices d))
             \<subseteq> set (map (\<lambda>p. (p_id p, p_url p)) (practices d1)) \<and>
           (i, u) \<in> set (map (\<lambda>p. (p_id p, p_url p)) (practices d1))"
proof -
  let ?i = "practices_id_seq d + 1"
  let ?row = "proposed now ?i u r"
  let ?g = "\<lambda>p. if p_url p = u then overwrite ?row p else p"
  from fits u have f: "practice_fits ?row" "practice_text_ok ?row"
    by (simp_all add: record_accepted_def fits_proposed [of now ?i])
  have gk: "p_id (?g p) = p_id p" "p_url (?g p) = p_url p" for p
    by (simp_all add: overwrite_keys)
  show ?thesis
  proof (cases "find (\<lambda>p. p_url p = u) (practices d)")
    case (Some old)
    let ?d1 = "d\<lparr>practices_id_seq := ?i, practices := map ?g (practices d)\<rparr>"
    from Some have old: "old \<in> set (practices d)" "p_url old = u"
      by (auto simp: find_Some_iff)
    have res: "upsertPractice now d r = (?d1, Inr (p_id old))"
      by (simp add: upsertPractice_def u f Some Let_def)
    have wf1: "wf_db ?d1"
      using wf by (rule wf_db_practices_map) (simp_all add: overwrite_keys)
    have k: "map (\<lambda>p. (p_id p, p_url p)) (map ?g (practices d)) = map (\<lambda>p. (p_id p, p_url p)) (practices d)"
      by (simp add: overwrite_keys)
    from old have "(p_id old, u) \<in> set (map (\<lambda>p. (p_id p, p_url p)) (practices d))"
      by force
    with res wf1 k show ?thesis
      by (intro exI [of _ ?d1] exI [of _ "p_id old"]) (simp del: map_map)
  next
    case None
    let ?d1 = "d\<lparr>practices_id_seq := ?i, practices := practices d @ [?row]\<rparr>"
    from None have nu: "u \<notin> set (map p_url (practices d))"
      by (auto simp: find_None_iff)
    from wf have "\<forall>p\<in>set (practices d). p_id p \<le> practices_id_seq d"
      by (simp add: wf_db_def list_all_iff)
    then have fresh: "?i \<notin> set (map p_id (practices d))"
      by force
    have res: "upsertPractice now d r = (?d1, Inr ?i)"
      using fresh by (simp add: upsertPractice_def u f None Let_def)
    have wf1: "wf_db ?d1"
      using wf by (rule wf_db_practices_append) (use nu in \<open>simp_all add: proposed_def\<close>)
    have "p_id ?row = ?i" "p_url ?row = u" by (simp_all add: proposed_def)
    with res wf1 show ?thesis
      by (intro exI [of _ ?d1] exI [of _ ?i]) auto
  qed
qed

lemma filter_single_find: "filter P xs = [x] \<Longrightarrow> find P xs = Some x"
  by (induction xs) (auto split: if_splits simp: filter_empty_conv find_None_iff)

lemma ensureLead_ok:
  assumes wf: "wf_db d" and fk: "i \<in> set (map p_id (practices d))"
  shows "\<exists>d2 k. ensureLead now d i = (d2, Inr k) \<and> wf_db d2 \<and> practices d2 = practices d \<and>
           (\<exists>l\<in>set (leads d2). l_practice_id l = i \<and> l_id l = k) \<and>
           (\<exists>ls. leads d2 = leads d @ ls \<and> (\<forall>l\<in>set ls. l_status l = ''new''))"
proof (cases "find (\<lambda>l. l_practice_id l = i) (leads d)")
  case (Some l)
  then have "l \<in> set (leads d)" "l_practice_id l = i"
    by (auto simp: find_Some_iff)
  moreover have "ensureLead now d i = (d, Inr (l_id l))"
    by (simp add: ensureLead_def Some)
  ultimately show ?thesis
    using wf by (intro exI [of _ d] exI [of _ "l_id l"]) auto
next
  case None
  let ?k = "leads_id_seq d + 1"
  let ?row = "\<lparr>l_id = ?k, l_practice_id = i, l_status = ''new'',
                      l_score = Some 0, l_notes = None, l_tags = JArr [],
                      l_next_follow_up = None, l_created_at = now, l_updated_at = now\<rparr>"
  let ?d2 = "d\<lparr>leads_id_seq := ?k, leads := leads d @ [?row]\<rparr>"
  from None have un: "i \<notin> set (map l_practice_id (leads d))"
    by (auto simp: find_None_iff)
  from wf have "\<forall>l\<in>set (leads d). l_id l \<le> leads_id_seq d"
    by (simp add: wf_db_def list_all_iff)
  then have fresh: "?k \<notin> set (map l_id (leads d))"
    by force
  have res: "ensureLead now d i = (?d2, Inr ?k)"
    using fresh fk by (simp add: ensureLead_def None Let_def)
  have wf2: "wf_db ?d2"
    using wf by (rule wf_db_leads_append) (use fk un in simp_all)
  from res wf2 show ?thesis
    by (intro exI [of _ ?d2] exI [of _ ?k]) auto
qed

lemma ingest_ok:
  assumes wf: "wf_db d" and fits: "\<forall>r. snd (snd x) = Some r \<longrightarrow> record_accepted r"
  shows "\<exists>d' k. ingest d x = (d', Inr k) \<and> wf_db d' \<and>
           set (map (\<lambda>p. (p_id p, p_url p)) (practices d))
             \<subseteq> set (map (\<lambda>p. (p_id p, p_url p)) (practices d')) \<and>
           (\<exists>ls. leads d' = leads d @ ls \<and> (\<forall>l\<in>set ls. l_status l = ''new'')) \<and>
           (\<forall>r u. snd (snd x) = Some r \<and> r_url r = Some u \<and> u \<noteq> [] \<longrightarrow>
              (\<exists>i. (i, u) \<in> set (map (\<lambda>p. (p_id p, p_url p)) (practices d')) \<and>
                   i \<in> set (map l_practice_id (leads d'))))"
proof -
  obtain t1 t2 rec where x: "x = (t1, t2, rec)" by (cases x)
  show ?thesis
  proof (cases "\<exists>r u. rec = Some r \<and> r_url r = Some u \<and> u \<noteq> []")
    case False
    then have "ingest d x = (d, Inr None)"
      by (auto simp: ingest_def x str_or_def split: option.splits)
    with wf False x show ?thesis
      by (intro exI [of _ d] exI [of _ None]) auto
  next
    case True
    then obtain r u where r: "rec = Some r" "r_url r = Some u" "u \<noteq> []" by blast
    from fits x r have f: "record_accepted r" by simp
    from upsertPractice_ok [OF wf r(2) f, of t1]
    obtain d1 i where up: "upsertPractice t1 d r = (d1, Inr i)" and wf1: "wf_db d1"
      and l1: "leads d1 = leads d"
      and k1: "set (map (\<lambda>p. (p_id p, p_url p)) (practices d))
             \<subseteq> set (map (\<lambda>p. (p_id p, p_url p)) (practices d1))"
      and i: "(i, u) \<in> set (map (\<lambda>p. (p_id p, p_url p)) (practices d1))"
      by blast
    from i have fk: "i \<in> set (map p_id (practices d1))" by force
    from ensureLead_ok [OF wf1 fk, of t2]
    obtain d2 k where en: "ensureLead t2 d1 i = (d2, Inr k)" and wf2: "wf_db d2"
      and p2: "practices d2 = practices d1"
      and l2: "\<exists>l\<in>set (leads d2). l_practice_id l = i \<and> l_id l = k"
      and new: "\<exists>ls. leads d2 = leads d1 @ ls \<and> (\<forall>l\<in>set ls. l_status l = ''new'')"
      by blast
    have res: "ingest d x = (d2, Inr (Some k))"
      by (simp add: ingest_def x r str_or_def up en)
    from l2 have "i \<in> set (map l_practice_id (leads d2))" by force
    with i p2 have pres: "\<exists>i. (i, u) \<in> set (map (\<lambda>p. (p_id p, p_url p)) (practices d2)) \<and>
                   i \<in> set (map l_practice_id (leads d2))"
      by auto
    from res wf2 k1 p2 new l1 pres x r show ?thesis
      by (intro exI [of _ d2] exI [of _ "Some k"]) auto
  qed
qed

lemma populate_ok:
  assumes "wf_db d" and "\<forall>x\<in>set xs. \<forall>r. snd (snd x) = Some r \<longrightarrow> record_accepted r"
  shows "\<exists>d'. populate d xs = (d', Inr ()) \<and> wf_db d' \<and>
           set (map (\<lambda>p. (p_id p, p_url p)) (practices d))
             \<subseteq> set (map (\<lambda>p. (p_id p, p_url p)) (practices d')) \<and>
           (\<exists>ls. leads d' = leads d @ ls \<and> (\<forall>l\<in>set ls. l_status l = ''new'')) \<and>
           (\<forall>x\<in>set xs. \<forall>r u. snd (snd x) = Some r \<and> r_url r = Some u \<and> u \<noteq> [] \<longrightarrow>
              (\<exists>i. (i, u) \<in> set (map (\<lambda>p. (p_id p, p_url p)) (practices d')) \<and>
                   i \<in> set (map l_practice_id (leads d'))))"
  using assms
proof (induction xs arbitrary: d)
  case Nil
  then show ?case by simp
next
  case (Cons x xs)
  let ?K = "\<lambda>d. set (map (\<lambda>p. (p_id p, p_url p)) (practices d))"
  from Cons.prems have fx: "\<forall>r. snd (snd x) = Some r \<longrightarrow> record_accepted r"
    and fxs: "\<forall>x\<in>set xs. \<forall>r. snd (snd x) = Some r \<longrightarrow> record_accepted r"
    by simp_all
  from ingest_ok [OF Cons.prems(1) fx]
  obtain d1 k ls1 where ing: "ingest d x = (d1, Inr k)" and wf1: "wf_db d1"
    and k1: "?K d \<subseteq> ?K d1"
    and l1: "leads d1 = leads d @ ls1" "\<forall>l\<in>set ls1. l_status l = ''new''"
    and p1: "\<forall>r u. snd (snd x) = Some r \<and> r_url r = Some u \<and> u \<noteq> [] \<longrightarrow>
              (\<exists>i. (i, u) \<in> ?K d1 \<and> i \<in> set (map l_practice_id (leads d1)))"
    by blast
  from Cons.IH [OF wf1 fxs]
  obtain d' ls2 where pop: "populate d1 xs = (d', Inr ())" and wf': "wf_db d'"
    and k2: "?K d1 \<subseteq> ?K d'"
    and l2: "leads d' = leads d1 @ ls2" "\<forall>l\<in>set ls2. l_status l = ''new''"
    and p2: "\<forall>x\<in>set xs. \<forall>r u. snd (snd x) = Some r \<and> r_url r = Some u \<and> u \<noteq> [] \<longrightarrow>
              (\<exists>i. (i, u) \<in> ?K d' \<and> i \<in> set (map l_practice_id (leads d')))"
    by blast
  have res: "populate d (x # xs) = (d', Inr ())"
    by (simp add: ing pop)
  have leads: "leads d' = leads d @ (ls1 @ ls2)" "\<forall>l\<in>set (ls1 @ ls2). l_status l = ''new''"
    using l1 l2 by auto
  have px: "\<exists>i. (i, u) \<in> ?K d' \<and> i \<in> set (map l_practice_id (leads d'))"
    if "snd (snd x) = Some r" "r_url r = Some u" "u \<noteq> []" for r u
  proof -
    from p1 that obtain i where i: "(i, u) \<in> ?K d1" "i \<in> set (map l_practice_id (leads d1))"
      by blast
    from i(1) k2 have "(i, u) \<in> ?K d'" by blast
    moreover from i(2) l2(1) have "i \<in> set (map l_practice_id (leads d'))" by simp
    ultimately show ?thesis by blast
  qed
  from k1 k2 have k: "?K d \<subseteq> ?K d'" by blast
  have pall: "\<forall>y\<in>set (x # xs). \<forall>r u. snd (snd y) = Some r \<and> r_url r = Some u \<and> u \<noteq> [] \<longrightarrow>
              (\<exists>i. (i, u) \<in> ?K d' \<and> i \<in> set (map l_practice_id (leads d')))"
  proof (intro ballI allI impI)
    fix y r u
    assume y: "y \<in> set (x # xs)"
      and h: "snd (snd y) = Some r \<and> r_url r = Some u \<and> u \<noteq> []"
    show "\<exists>i. (i, u) \<in> ?K d' \<and> i \<in> set (map l_practice_id (leads d'))"
    proof (cases "y = x")
      case True
      with h px show ?thesis by blast
    next
      case False
      with y have "y \<in> set xs" by simp
      with p2 h show ?thesis by blast
    qed
  qed
  from leads have "\<exists>ls. leads d' = leads d @ ls \<and> (\<forall>l\<in>set ls. l_status l = ''new'')"
    by blast
  with res wf' k pall show ?case by blast
qed

lemma filter_key_single:
  assumes "distinct (map f xs)" and "x \<in> set xs"
  shows "filter (\<lambda>y. f y = f x) xs = [x]"
proof -
  let ?F = "filter (\<lambda>y. f y = f x) xs"
  from assms(2) have mem: "x \<in> set ?F" by simp
  from assms(1) have "?F = [] \<or> (\<exists>z. ?F = [z])"
    by (rule filter_key_atmost_one)
  then show ?thesis
  proof (elim disjE exE)
    assume e: "?F = []"
    from mem have "x \<in> set []" by (simp only: e)
    then show ?thesis by simp
  next
    fix z assume e: "?F = [z]"
    from mem have "x \<in> set [z]" by (simp only: e)
    then have "z = x" by simp
    with e show ?thesis by simp
  qed
qed

text \<open>
  C7. The populate loop, started in a database that satisfies the constraints of the
  schema, over any list of records whose values the server reads and that fit the
  columns: it does not fail, and for every record of the list with a non-empty url,
  however often the list repeats it, the database then has exactly one practice row
  with that url and exactly one lead of that practice. A further \<open>ensureLead\<close> for
  the practice returns the id of that lead and leaves the database as it is. The
  lead existed before the loop or has the status \<open>new\<close>.
\<close>

theorem populate_one_practice_one_lead:
  assumes wf: "wf_db d"
    and fits: "\<forall>x\<in>set xs. \<forall>r. snd (snd x) = Some r \<longrightarrow> record_accepted r"
    and mem: "(t1, t2, Some r) \<in> set xs" and url: "r_url r = Some u" and ne: "u \<noteq> []"
  shows "\<exists>d' p l. populate d xs = (d', Inr ()) \<and>
           filter (\<lambda>q. p_url q = u) (practices d') = [p] \<and>
           filter (\<lambda>m. l_practice_id m = p_id p) (leads d') = [l] \<and>
           (\<forall>t. ensureLead t d' (p_id p) = (d', Inr (l_id l))) \<and>
           (l \<in> set (leads d) \<or> l_status l = ''new'')"
proof -
  from populate_ok [OF wf fits]
  obtain d' ls where pop: "populate d xs = (d', Inr ())" and wf': "wf_db d'"
    and leads: "leads d' = leads d @ ls" "\<forall>l\<in>set ls. l_status l = ''new''"
    and pres: "\<forall>x\<in>set xs. \<forall>r u. snd (snd x) = Some r \<and> r_url r = Some u \<and> u \<noteq> [] \<longrightarrow>
              (\<exists>i. (i, u) \<in> set (map (\<lambda>p. (p_id p, p_url p)) (practices d')) \<and>
                   i \<in> set (map l_practice_id (leads d')))"
    by blast
  from pres mem url ne obtain i where
    i: "(i, u) \<in> set (map (\<lambda>p. (p_id p, p_url p)) (practices d'))"
      "i \<in> set (map l_practice_id (leads d'))"
    by force
  from i(1) obtain p where p: "p \<in> set (practices d')" "p_id p = i" "p_url p = u" by auto
  from i(2) p(2) obtain l where l: "l \<in> set (leads d')" "l_practice_id l = p_id p" by auto
  from wf' have du: "distinct (map p_url (practices d'))"
    and dl: "distinct (map l_practice_id (leads d'))"
    by (simp_all add: wf_db_def)
  have fp: "filter (\<lambda>q. p_url q = u) (practices d') = [p]"
    using filter_key_single [OF du p(1)] p(3) by simp
  have fl: "filter (\<lambda>m. l_practice_id m = p_id p) (leads d') = [l]"
    using filter_key_single [OF dl l(1)] l(2) by simp
  have en: "ensureLead t d' (p_id p) = (d', Inr (l_id l))" for t
    by (simp add: ensureLead_def filter_single_find [OF fl])
  from l(1) leads have "l \<in> set (leads d) \<or> l_status l = ''new''" by auto
  with pop fp fl en show ?thesis by blast
qed

lemma empty_wf: "wf_db empty_db"
  by (simp add: wf_db_def empty_db_def)

theorem populate_one_practice_one_lead_witness:
  "wf_db empty_db \<and> record_accepted acme \<and> r_url acme = Some ''a.example/1'' \<and>
   (\<exists>d' p l. populate empty_db [(1, 2, Some acme), (3, 4, Some acme), (5, 6, Some acme)]
                 = (d', Inr ()) \<and>
      filter (\<lambda>q. p_url q = ''a.example/1'') (practices d') = [p] \<and>
      filter (\<lambda>m. l_practice_id m = p_id p) (leads d') = [l] \<and>
      (\<forall>t. ensureLead t d' (p_id p) = (d', Inr (l_id l))) \<and>
      l_status l = ''new'')"
proof -
  have f: "record_accepted acme" by code_simp
  have u: "r_url acme = Some ''a.example/1''" by (simp add: acme_def)
  have "\<exists>d' p l. populate empty_db [(1, 2, Some acme), (3, 4, Some acme), (5, 6, Some acme)]
                 = (d', Inr ()) \<and>
      filter (\<lambda>q. p_url q = ''a.example/1'') (practices d') = [p] \<and>
      filter (\<lambda>m. l_practice_id m = p_id p) (leads d') = [l] \<and>
      (\<forall>t. ensureLead t d' (p_id p) = (d', Inr (l_id l))) \<and>
      (l \<in> set (leads empty_db) \<or> l_status l = ''new'')"
    by (rule populate_one_practice_one_lead [OF empty_wf _ _ u, where ?t1.0 = 1 and ?t2.0 = 2])
      (simp_all add: f)
  then show ?thesis
    using empty_wf f u by (simp add: empty_db_def)
qed

section \<open>What the server rejects\<close>

lemma patch_lead_nul_notes:
  "(case patch_lead demo_enc 5 6 demo_db ''1''
           \<lparr>f_status = JStr ''lost'', f_notes = JStr [CHR ''a'', CHR 0x00, CHR ''b''],
            f_score = JUndefined, f_tags = JUndefined\<rparr> of
      ([d1, d2], r) \<Rightarrow>
        r = ServerError \<and> d2 = d1 \<and> leads d1 = leads demo_db \<and>
        map a_kind (activities d1) = [''status_change'']
    | _ \<Rightarrow> False)"
  by code_simp

lemma updateLead_nul_notes:
  "updateLead demo_enc 9 demo_db (Finite 1)
     \<lparr>f_status = JUndefined, f_notes = JStr [CHR ''a'', CHR 0x00, CHR ''b''],
      f_score = JNum (Finite 100), f_tags = JUndefined\<rparr> = (demo_db, Inl DbError)"
  by code_simp

lemma upsertPractice_nul_name:
  "\<not> record_accepted (acme\<lparr>r_name := Some [CHR 0x00]\<rparr>) \<and>
   upsertPractice 1 empty_db (acme\<lparr>r_name := Some [CHR 0x00]\<rparr>) = (empty_db, Inl DbError)"
  by code_simp

lemma upsertPractice_too_wide:
  "upsertPractice 1 empty_db (acme\<lparr>r_staff := Some (replicate 51 (CHR ''x''))\<rparr>)
     = (empty_db, Inl DbError)"
  by code_simp

end
